theory Spec2Isabelle
  imports Main
begin

section \<open>Data model\<close>

text \<open>
  A JavaScript string is modelled as a \<^typ>\<open>string\<close>: one list element per code unit, so that
  \<open>length\<close> is \<open>.length\<close> and \<open>split('')\<close> is the list itself. A one-character string
  (\<open>chars1[i - 1]\<close>) is a singleton list. A \<^typ>\<open>char\<close> has 256 values where a code unit has
  65536; only the JSON escaping looks at the value of a code unit. JavaScript numbers are
  modelled as \<^typ>\<open>int\<close> (positions, lengths and offsets of operations are integers in every
  value the code builds; a received operation is assumed to carry integers), table
  indices as \<^typ>\<open>nat\<close>.
  An optional field is an \<open>option\<close>, \<open>None\<close> meaning that the property is absent.
\<close>

type_synonym Hash = string

datatype CharDiffType = CAdded | CRemoved | CUnchanged

record CharDiff =
  cd_char :: string
  cd_type :: CharDiffType

datatype DiffType = Added | Removed | Unchanged | Modified

text \<open>
  \<open>DiffResult\<close>: the fields \<open>oldLineNumber\<close>, \<open>newLineNumber\<close> and \<open>newLine\<close> are read by no
  function and are left out.
\<close>

record DiffResult =
  dr_type :: DiffType
  line :: string
  charDiffs :: "CharDiff list option"
  oldLine :: "string option"

datatype OpType = Retain | Insert | Delete

record Operation =
  op_type :: OpType
  op_length :: "int option"
  op_text :: "string option"
  position :: int

section \<open>Character diff (versioning.ts)\<close>

text \<open>
  The body of the two nested loops that fill the table \<open>dp\<close>: the assignment to
  \<open>dp[i][j]\<close>.
\<close>

definition dp_assign :: "string \<Rightarrow> string \<Rightarrow> nat \<Rightarrow> nat \<Rightarrow> nat list list \<Rightarrow> nat list list" where
  "dp_assign chars1 chars2 i j dp =
     (if chars1 ! (i - 1) = chars2 ! (j - 1)
      then dp[i := (dp ! i)[j := dp ! (i - 1) ! (j - 1) + 1]]
      else dp[i := (dp ! i)[j := max (dp ! (i - 1) ! j) (dp ! i ! (j - 1))]])"

definition dp_table :: "string \<Rightarrow> string \<Rightarrow> nat list list" where
  "dp_table chars1 chars2 =
     (let n = length chars1; m = length chars2
      in foldl (\<lambda>dp i. foldl (\<lambda>dp j. dp_assign chars1 chars2 i j dp) dp [1..<m + 1])
           (replicate (n + 1) (replicate (m + 1) 0)) [1..<n + 1])"

text \<open>
  The reconstruction loop \<open>while (i > 0 || j > 0)\<close>; \<open>result.unshift\<close> is a cons, and the
  final \<open>else\<close> is the \<open>break\<close>.
\<close>

function backtrack ::
  "nat list list \<Rightarrow> string \<Rightarrow> string \<Rightarrow> nat \<Rightarrow> nat \<Rightarrow> CharDiff list \<Rightarrow> CharDiff list" where
  "backtrack dp chars1 chars2 i j result =
     (if i > 0 \<or> j > 0 then
        if i > 0 \<and> j > 0 \<and> chars1 ! (i - 1) = chars2 ! (j - 1) then
          backtrack dp chars1 chars2 (i - 1) (j - 1)
            (\<lparr>cd_char = [chars1 ! (i - 1)], cd_type = CUnchanged\<rparr> # result)
        else if j > 0 \<and> (i = 0 \<or> dp ! i ! (j - 1) \<ge> dp ! (i - 1) ! j) then
          backtrack dp chars1 chars2 i (j - 1)
            (\<lparr>cd_char = [chars2 ! (j - 1)], cd_type = CAdded\<rparr> # result)
        else if i > 0 \<and> (j = 0 \<or> dp ! i ! (j - 1) < dp ! (i - 1) ! j) then
          backtrack dp chars1 chars2 (i - 1) j
            (\<lparr>cd_char = [chars1 ! (i - 1)], cd_type = CRemoved\<rparr> # result)
        else result
      else result)"
  by pat_completeness auto
termination
  by (relation "measure (\<lambda>(dp, chars1, chars2, i, j, result). i + j)") auto

declare backtrack.simps [simp del]

definition generateCharacterDiff :: "string \<Rightarrow> string \<Rightarrow> CharDiff list" where
  "generateCharacterDiff line1 line2 =
     (let chars1 = line1; chars2 = line2;
          n = length chars1; m = length chars2;
          dp = dp_table chars1 chars2
      in backtrack dp chars1 chars2 n m [])"

text \<open>The loop of \<open>diff\<close> pushes one \<open>DiffResult\<close> per character diff, in order.\<close>

fun charDiffResult :: "CharDiff \<Rightarrow> DiffResult" where
  "charDiffResult charDiff =
     (case cd_type charDiff of
        CUnchanged \<Rightarrow> \<lparr>dr_type = Unchanged, line = cd_char charDiff, charDiffs = None, oldLine = None\<rparr>
      | CAdded \<Rightarrow> \<lparr>dr_type = Added, line = cd_char charDiff, charDiffs = None, oldLine = None\<rparr>
      | CRemoved \<Rightarrow> \<lparr>dr_type = Removed, line = cd_char charDiff, charDiffs = None, oldLine = None\<rparr>)"

definition diff :: "string \<Rightarrow> string \<Rightarrow> DiffResult list" where
  "diff text1 text2 =
     (if text1 = text2 then [] else map charDiffResult (generateCharacterDiff text1 text2))"

section \<open>Operations (ot.ts)\<close>

text \<open>
  \<open>diffToOperations\<close>: the state of the outer loop is \<open>(operations, position)\<close>, that of the
  inner loop over \<open>charDiffs\<close> is \<open>(operations, charPos)\<close>; \<open>push\<close> appends.
\<close>

fun charDiffOp :: "Operation list \<times> int \<Rightarrow> CharDiff \<Rightarrow> Operation list \<times> int" where
  "charDiffOp (operations, charPos) charDiff =
     (case cd_type charDiff of
        CUnchanged \<Rightarrow>
          (operations @ [\<lparr>op_type = Retain, op_length = Some 1, op_text = None, position = charPos\<rparr>],
           charPos + 1)
      | CAdded \<Rightarrow>
          (operations @ [\<lparr>op_type = Insert, op_length = None, op_text = Some (cd_char charDiff),
                          position = charPos\<rparr>],
           charPos)
      | CRemoved \<Rightarrow>
          (operations @ [\<lparr>op_type = Delete, op_length = Some 1, op_text = None, position = charPos\<rparr>],
           charPos + 1))"

fun diffOp :: "Operation list \<times> int \<Rightarrow> DiffResult \<Rightarrow> Operation list \<times> int" where
  "diffOp (operations, pos) d =
     (case dr_type d of
        Unchanged \<Rightarrow>
          (operations @ [\<lparr>op_type = Retain, op_length = Some (int (length (line d))), op_text = None,
                          position = pos\<rparr>],
           pos + int (length (line d)))
      | Added \<Rightarrow>
          (operations @ [\<lparr>op_type = Insert, op_length = None, op_text = Some (line d), position = pos\<rparr>],
           pos)
      | Removed \<Rightarrow>
          (operations @ [\<lparr>op_type = Delete, op_length = Some (int (length (line d))), op_text = None,
                          position = pos\<rparr>],
           pos + int (length (line d)))
      | Modified \<Rightarrow>
          (case charDiffs d of
             Some cds \<Rightarrow>
               (fst (foldl charDiffOp (operations, pos) cds),
                pos + (case oldLine d of Some l \<Rightarrow> int (length l) | None \<Rightarrow> 0))
           | None \<Rightarrow> (operations, pos)))"

definition diffToOperations :: "DiffResult list \<Rightarrow> Operation list" where
  "diffToOperations diffs = fst (foldl diffOp ([], 0) diffs)"

subsection \<open>applyOperations\<close>

text \<open>
  \<open>String.prototype.slice\<close>: a negative index counts from the end, and every index is
  clamped to \<open>[0, length]\<close>; an empty string results when the end is not after the start.
\<close>

definition sliceIndex :: "string \<Rightarrow> int \<Rightarrow> nat" where
  "sliceIndex s k = (let len = int (length s) in nat (if k < 0 then max (len + k) 0 else min k len))"

definition slice :: "string \<Rightarrow> int \<Rightarrow> int \<Rightarrow> string" where
  "slice s start end = take (sliceIndex s end - sliceIndex s start) (drop (sliceIndex s start) s)"

definition sliceFrom :: "string \<Rightarrow> int \<Rightarrow> string" where
  "sliceFrom s start = drop (sliceIndex s start) s"

text \<open>
  \<open>op.text?.length || 0\<close> and \<open>op.length || 0\<close>; string concatenation with an absent
  \<open>op.text\<close> appends the text \<open>undefined\<close>.
\<close>

definition textLength :: "Operation \<Rightarrow> int" where
  "textLength op = (case op_text op of Some t \<Rightarrow> int (length t) | None \<Rightarrow> 0)"

definition lengthOr0 :: "Operation \<Rightarrow> int" where
  "lengthOr0 op = (case op_length op of Some l \<Rightarrow> l | None \<Rightarrow> 0)"

definition textConcat :: "Operation \<Rightarrow> string" where
  "textConcat op = (case op_text op of Some t \<Rightarrow> t | None \<Rightarrow> ''undefined'')"

text \<open>The body of the loop over \<open>sortedOps\<close>, on the state \<open>(result, offset)\<close>.\<close>

fun applyOp :: "string \<times> int \<Rightarrow> Operation \<Rightarrow> string \<times> int" where
  "applyOp (result, offset) op =
     (let adjustedPosition = position op + offset in
      case op_type op of
        Insert \<Rightarrow>
          (slice result 0 adjustedPosition @ textConcat op @ sliceFrom result adjustedPosition,
           offset + textLength op)
      | Delete \<Rightarrow>
          (slice result 0 adjustedPosition @ sliceFrom result (adjustedPosition + lengthOr0 op),
           offset - lengthOr0 op)
      | Retain \<Rightarrow> (result, offset))"

text \<open>
  \<open>[...operations].sort((a, b) => a.position - b.position)\<close> is a stable sort on the
  position; \<^const>\<open>sort_key\<close> is one.
\<close>

definition applyOperations :: "string \<Rightarrow> Operation list \<Rightarrow> string" where
  "applyOperations content operations =
     fst (foldl applyOp (content, 0) (sort_key position operations))"

subsection \<open>transformOperations\<close>

text \<open>
  The loop \<open>while (clientIndex < clientOps.length)\<close>, on the operations that remain from
  \<open>clientIndex\<close> and from \<open>serverIndex\<close>, the offset and the list built so far.
  \<open>serverOps[serverIndex]\<close> is undefined exactly when no server operation remains. The
  elements of \<open>clientOps\<close> are operations, so the guard \<open>if (!clientOp)\<close> never fires.
  The spread \<open>{...clientOp, position: p}\<close> is a record update.
\<close>

fun transformLoop ::
  "Operation list \<Rightarrow> Operation list \<Rightarrow> int \<Rightarrow> Operation list \<Rightarrow> Operation list" where
  "transformLoop [] serverOps positionOffset transformed = transformed"
| "transformLoop (clientOp # clientOps) [] positionOffset transformed =
     transformLoop clientOps [] positionOffset
       (transformed @ [clientOp\<lparr>position := position clientOp + positionOffset\<rparr>])"
| "transformLoop (clientOp # clientOps) (serverOp # serverOps) positionOffset transformed =
     (if position clientOp < position serverOp then
        transformLoop clientOps (serverOp # serverOps) positionOffset
          (transformed @ [clientOp\<lparr>position := position clientOp + positionOffset\<rparr>])
      else if position clientOp > position serverOp then
        transformLoop (clientOp # clientOps) serverOps
          (if op_type serverOp = Insert then positionOffset + textLength serverOp
           else if op_type serverOp = Delete then positionOffset - lengthOr0 serverOp
           else positionOffset)
          transformed
      else
        transformLoop clientOps serverOps positionOffset
          (if op_type clientOp = Insert \<and> op_type serverOp = Insert then
             transformed @ [clientOp\<lparr>position := position clientOp + textLength serverOp\<rparr>]
           else if op_type clientOp = Delete \<and> op_type serverOp = Delete then transformed
           else transformed @ [clientOp\<lparr>position := position clientOp + positionOffset\<rparr>]))"

definition transformOperations :: "Operation list \<Rightarrow> Operation list \<Rightarrow> Operation list" where
  "transformOperations clientOps serverOps = transformLoop clientOps serverOps 0 []"

section \<open>Version store (versioning.ts)\<close>

text \<open>
  A tree is an object with string keys, modelled by the list of its own properties. The
  store holds blobs, trees and commits without any tag, so an object of one kind can be
  read where another is expected; the datatype keeps the kind that JavaScript sees at run
  time.
\<close>

record Commit =
  tree :: Hash
  parent :: "Hash option"
  message :: string
  timestamp :: string

type_synonym Tree = "(string \<times> Hash) list"

datatype GitObject = Blob string | TreeObj Tree | CommitObj Commit

text \<open>
  The values that a lookup can produce: \<open>null\<close>, \<open>undefined\<close> (a \<open>Map.get\<close> that finds
  nothing) or a stored object. A string content is \<open>Val (Blob s)\<close>.
\<close>

datatype js_value = Null | Undefined | Val GitObject

text \<open>
  The exceptions that the modelled code can raise: a \<open>TypeError\<close> for a call of
  something that is not a function, a \<open>RangeError\<close> for a string that would be too long.
\<close>

datatype js_error = TypeError | RangeError

record VersionHistory =
  db :: "Hash \<rightharpoonup> GitObject"
  HEAD :: "Hash option"
  filename :: string

definition newVersionHistory :: "string \<Rightarrow> VersionHistory" where
  "newVersionHistory fname = \<lparr>db = Map.empty, HEAD = None, filename = fname\<rparr>"

definition getHeadHash :: "VersionHistory \<Rightarrow> Hash option" where
  "getHeadHash vh = HEAD vh"

subsection \<open>JSON.stringify of trees and commits\<close>

definition hexDigit :: "nat \<Rightarrow> char" where
  "hexDigit d = (''0123456789abcdef'') ! (d mod 16)"

text \<open>\<open>QuoteJSONString\<close> of ECMAScript, on code units below 256.\<close>

definition jsonEscape :: "char \<Rightarrow> string" where
  "jsonEscape c =
     (if c = CHR 0x22 then [CHR 0x5C, CHR 0x22]
      else if c = CHR 0x5C then [CHR 0x5C, CHR 0x5C]
      else if c = CHR 0x08 then [CHR 0x5C, CHR ''b'']
      else if c = CHR 0x0C then [CHR 0x5C, CHR ''f'']
      else if c = CHR 0x0A then [CHR 0x5C, CHR ''n'']
      else if c = CHR 0x0D then [CHR 0x5C, CHR ''r'']
      else if c = CHR 0x09 then [CHR 0x5C, CHR ''t'']
      else if (of_char c :: nat) < 32
        then [CHR 0x5C, CHR ''u'', CHR ''0'', CHR ''0'',
              hexDigit ((of_char c :: nat) div 16), hexDigit (of_char c :: nat)]
      else [c])"

definition jsonQuote :: "string \<Rightarrow> string" where
  "jsonQuote s = [CHR 0x22] @ concat (map jsonEscape s) @ [CHR 0x22]"

fun commaJoin :: "string list \<Rightarrow> string" where
  "commaJoin [] = []"
| "commaJoin [x] = x"
| "commaJoin (x # y # ys) = x @ '','' @ commaJoin (y # ys)"

definition stringifyTree :: "Tree \<Rightarrow> string" where
  "stringifyTree t = ''{'' @ commaJoin (map (\<lambda>(k, v). jsonQuote k @ '':'' @ jsonQuote v) t) @ ''}''"

definition stringifyCommit :: "Commit \<Rightarrow> string" where
  "stringifyCommit c =
     ''{'' @ jsonQuote ''tree'' @ '':'' @ jsonQuote (tree c) @ '','' @
     jsonQuote ''parent'' @ '':'' @ (case parent c of None \<Rightarrow> ''null'' | Some p \<Rightarrow> jsonQuote p) @ '','' @
     jsonQuote ''message'' @ '':'' @ jsonQuote (message c) @ '','' @
     jsonQuote ''timestamp'' @ '':'' @ jsonQuote (timestamp c) @ ''}''"

text \<open>
  \<open>hashObject\<close>: the SHA-1 hex digest of the string itself, or of the JSON text of an
  object. The hasher is \<open>Bun.CryptoHasher\<close>, outside the repository: the digest function
  is the parameter \<open>sha1\<close>.
\<close>

definition hashObject :: "(string \<Rightarrow> Hash) \<Rightarrow> GitObject \<Rightarrow> Hash" where
  "hashObject sha1 data =
     sha1 (case data of Blob s \<Rightarrow> s | TreeObj t \<Rightarrow> stringifyTree t | CommitObj c \<Rightarrow> stringifyCommit c)"

subsection \<open>commit and getContent\<close>

text \<open>
  \<open>commit\<close> returns the new hash and the updated history. Its parameter \<open>content\<close> is
  declared a string; the server can pass any value that an earlier \<open>getContent\<close> returned,
  so the model takes a stored object. The two readings of the clock (\<open>new Date()\<close> in the
  default message and in the timestamp) are the parameters \<open>now1\<close> and \<open>now2\<close>.
\<close>

definition commit ::
  "(string \<Rightarrow> Hash) \<Rightarrow> VersionHistory \<Rightarrow> GitObject \<Rightarrow> string \<Rightarrow> string \<Rightarrow> string \<Rightarrow> Hash \<times> VersionHistory" where
  "commit sha1 vh content msg now1 now2 =
     (let blobHash = hashObject sha1 content;
          db1 = (if db vh blobHash = None then (db vh)(blobHash \<mapsto> content) else db vh);
          treeData = [(filename vh, blobHash)];
          treeHash = hashObject sha1 (TreeObj treeData);
          db2 = (if db1 treeHash = None then db1(treeHash \<mapsto> TreeObj treeData) else db1);
          commitData = \<lparr>tree = treeHash, parent = HEAD vh,
                        message = (if msg \<noteq> [] then msg else ''Commit at '' @ now1),
                        timestamp = now2\<rparr>;
          commitHash = hashObject sha1 (CommitObj commitData);
          db3 = db2(commitHash \<mapsto> CommitObj commitData)
      in (commitHash, vh\<lparr>db := db3, HEAD := Some commitHash\<rparr>))"

text \<open>
  The value of a property read \<open>obj[name]\<close>: nothing (\<open>undefined\<close> or \<open>null\<close>, which the
  code treats alike), a string, a number, or a function or object, of which the code only
  sees that it is truthy and not a string. The file name is the note id, chosen by the
  client, so every property that JavaScript finds has to be modelled: the own properties
  of the object first, then those it inherits.
\<close>

datatype prop_value = NoProp | StrProp string | NumProp nat | ObjProp

text \<open>
  The names of the properties of \<open>Object.prototype\<close> and of \<open>String.prototype\<close> in ECMAScript
  (Annex B included). Their values are functions, but for \<open>__proto__\<close>, whose value is
  the prototype object.
\<close>

definition objectPrototype :: "string list" where
  "objectPrototype =
     [''constructor'', ''__defineGetter__'', ''__defineSetter__'', ''hasOwnProperty'',
      ''__lookupGetter__'', ''__lookupSetter__'', ''isPrototypeOf'', ''propertyIsEnumerable'',
      ''toString'', ''valueOf'', ''__proto__'', ''toLocaleString'']"

definition stringPrototype :: "string list" where
  "stringPrototype =
     [''constructor'', ''anchor'', ''at'', ''big'', ''blink'', ''bold'', ''charAt'', ''charCodeAt'',
      ''codePointAt'', ''concat'', ''endsWith'', ''fontcolor'', ''fontsize'', ''fixed'', ''includes'',
      ''indexOf'', ''isWellFormed'', ''italics'', ''lastIndexOf'', ''link'', ''localeCompare'',
      ''match'', ''matchAll'', ''normalize'', ''padEnd'', ''padStart'', ''repeat'', ''replace'',
      ''replaceAll'', ''search'', ''slice'', ''small'', ''split'', ''strike'', ''sub'', ''substr'',
      ''substring'', ''sup'', ''startsWith'', ''toString'', ''toWellFormed'', ''trim'', ''trimStart'',
      ''trimLeft'', ''trimEnd'', ''trimRight'', ''toLocaleLowerCase'', ''toLocaleUpperCase'',
      ''toLowerCase'', ''toUpperCase'', ''valueOf'']"

text \<open>
  A string has an own property for every index below its length; the name of an index is
  its decimal numeral without leading zeros.
\<close>

definition isDigit :: "char \<Rightarrow> bool" where
  "isDigit c = (48 \<le> (of_char c :: nat) \<and> (of_char c :: nat) \<le> 57)"

definition indexKey :: "string \<Rightarrow> nat option" where
  "indexKey name =
     (if name \<noteq> [] \<and> list_all isDigit name \<and> (length name = 1 \<or> hd name \<noteq> CHR ''0'')
      then Some (foldl (\<lambda>n c. 10 * n + ((of_char c :: nat) - 48)) 0 name)
      else None)"

fun getProp :: "GitObject \<Rightarrow> string \<Rightarrow> prop_value" where
  "getProp (Blob s) name =
     (if name = ''length'' then NumProp (length s)
      else if (case indexKey name of Some i \<Rightarrow> i < length s | None \<Rightarrow> False)
        then StrProp [s ! the (indexKey name)]
      else if name \<in> set stringPrototype \<or> name \<in> set objectPrototype then ObjProp
      else NoProp)"
| "getProp (TreeObj t) name =
     (case map_of t name of
        Some h \<Rightarrow> StrProp h
      | None \<Rightarrow> if name \<in> set objectPrototype then ObjProp else NoProp)"
| "getProp (CommitObj c) name =
     (if name = ''tree'' then StrProp (tree c)
      else if name = ''parent'' then (case parent c of None \<Rightarrow> NoProp | Some p \<Rightarrow> StrProp p)
      else if name = ''message'' then StrProp (message c)
      else if name = ''timestamp'' then StrProp (timestamp c)
      else if name \<in> set objectPrototype then ObjProp
      else NoProp)"

text \<open>
  The falsy values: of the stored objects the empty string; of the property values
  \<open>undefined\<close>, \<open>null\<close>, the empty string and 0.
\<close>

definition falsy :: "GitObject \<Rightarrow> bool" where
  "falsy obj = (obj = Blob [])"

definition propFalsy :: "prop_value \<Rightarrow> bool" where
  "propFalsy v = (v = NoProp \<or> v = StrProp [] \<or> v = NumProp 0)"

text \<open>
  \<open>this.db.get(key)\<close> with a property value as the key: the keys of the map are strings,
  so only a string finds anything.
\<close>

definition mapGet :: "(Hash \<rightharpoonup> GitObject) \<Rightarrow> prop_value \<Rightarrow> GitObject option" where
  "mapGet d v = (case v of StrProp h \<Rightarrow> d h | _ \<Rightarrow> None)"

definition getContent :: "VersionHistory \<Rightarrow> Hash option \<Rightarrow> js_value" where
  "getContent vh commitHash =
     (case commitHash of
        None \<Rightarrow> Null
      | Some h \<Rightarrow>
          if h = [] then Null
          else case db vh h of
            None \<Rightarrow> Null
          | Some commitObj \<Rightarrow>
              if falsy commitObj then Null
              else case mapGet (db vh) (getProp commitObj ''tree'') of
                None \<Rightarrow> Null
              | Some treeObj \<Rightarrow>
                  if falsy treeObj then Null
                  else let blobHash = getProp treeObj (filename vh)
                    in if propFalsy blobHash then Null
                       else case mapGet (db vh) blobHash of
                         None \<Rightarrow> Undefined
                       | Some blob \<Rightarrow> Val blob)"

definition getCurrentContent :: "VersionHistory \<Rightarrow> js_value" where
  "getCurrentContent vh = getContent vh (HEAD vh)"

section \<open>The functions of ot.ts on run-time values\<close>

text \<open>
  \<open>getContent\<close> casts what it finds to a string, so the server can hand a value that is
  not a string to \<open>applyOperations\<close> and \<open>diff\<close>. There \<open>slice\<close> and \<open>split\<close> are not
  functions, and the call raises a \<open>TypeError\<close>.

  A string of the engine is bounded: in JavaScriptCore, the engine of Bun, by
  \<open>2^31 - 1\<close> code units, and a concatenation whose result would be longer raises a
  \<open>RangeError\<close> (out of memory). The numbers of the engine are doubles: the integers of the
  model agree with them as long as every number in a computation has a magnitude of at
  most \<open>2^53\<close>.
\<close>

definition maxStringLength :: int where
  "maxStringLength = 2147483647"

fun applyOp_js :: "js_value \<times> int \<Rightarrow> Operation \<Rightarrow> js_error + js_value \<times> int" where
  "applyOp_js (result, offset) op =
     (case op_type op of
        Retain \<Rightarrow> Inr (result, offset)
      | _ \<Rightarrow>
          (case result of
             Val (Blob r) \<Rightarrow>
               (case applyOp (r, offset) op of
                  (r', offset') \<Rightarrow>
                    if int (length r') > maxStringLength then Inl RangeError
                    else Inr (Val (Blob r'), offset'))
           | _ \<Rightarrow> Inl TypeError))"

fun foldl_js :: "('s \<Rightarrow> 'a \<Rightarrow> js_error + 's) \<Rightarrow> 's \<Rightarrow> 'a list \<Rightarrow> js_error + 's" where
  "foldl_js f s [] = Inr s"
| "foldl_js f s (x # xs) = (case f s x of Inl e \<Rightarrow> Inl e | Inr s' \<Rightarrow> foldl_js f s' xs)"

definition applyOperations_js :: "js_value \<Rightarrow> Operation list \<Rightarrow> js_error + js_value" where
  "applyOperations_js content operations =
     (case foldl_js applyOp_js (content, 0) (sort_key position operations) of
        Inl e \<Rightarrow> Inl e
      | Inr (result, offset) \<Rightarrow> Inr result)"

text \<open>
  \<open>diff\<close>: \<open>===\<close> compares strings by value and objects by identity; two lookups in one
  store return the same object exactly when they return equal objects.
\<close>

definition diff_js :: "js_value \<Rightarrow> js_value \<Rightarrow> js_error + DiffResult list" where
  "diff_js text1 text2 =
     (if text1 = text2 then Inr []
      else case (text1, text2) of
        (Val (Blob s1), Val (Blob s2)) \<Rightarrow> Inr (map charDiffResult (generateCharacterDiff s1 s2))
      | _ \<Rightarrow> Inl TypeError)"

text \<open>
  \<open>operationalTransform\<close>: the body of the \<open>try\<close> block, and the result object. The field
  \<open>error\<close> holds the caught error; the string sent is \<open>OT failed: \<close> followed by the
  engine's message for it.
\<close>

record OTResult =
  success :: bool
  mergedContent :: "js_value option"
  error :: "js_error option"

definition tryTransform ::
  "js_value \<Rightarrow> js_value \<Rightarrow> js_value \<Rightarrow> (js_value \<Rightarrow> js_value \<Rightarrow> js_error + DiffResult list)
     \<Rightarrow> js_error + js_value" where
  "tryTransform baseContent clientContent serverContent diffFunction =
     (case diffFunction baseContent serverContent of
        Inl e \<Rightarrow> Inl e
      | Inr serverDiffs \<Rightarrow>
          (case diffFunction baseContent clientContent of
             Inl e \<Rightarrow> Inl e
           | Inr clientDiffs \<Rightarrow>
               (let serverOps = diffToOperations serverDiffs;
                    clientOps = diffToOperations clientDiffs;
                    transformedClientOps = transformOperations clientOps serverOps
                in applyOperations_js serverContent transformedClientOps)))"

definition operationalTransform ::
  "js_value \<Rightarrow> js_value \<Rightarrow> js_value \<Rightarrow> (js_value \<Rightarrow> js_value \<Rightarrow> js_error + DiffResult list)
     \<Rightarrow> OTResult" where
  "operationalTransform baseContent clientContent serverContent diffFunction =
     (case tryTransform baseContent clientContent serverContent diffFunction of
        Inr merged \<Rightarrow> \<lparr>success = True, mergedContent = Some merged, error = None\<rparr>
      | Inl e \<Rightarrow> \<lparr>success = False, mergedContent = None, error = Some e\<rparr>)"

section \<open>The sync server (the \<open>message\<close> handler of the WebSocket server)\<close>

text \<open>
  The two global maps of the server, by note id. A connection set is a JavaScript \<open>Set\<close>,
  iterated in insertion order: a list of sockets, each a number. A \<open>VersionHistory\<close> is
  mutated in place; the model stores the updated history back under its note id.
\<close>

type_synonym ws = nat

record ServerState =
  noteHistories :: "string \<rightharpoonup> VersionHistory"
  noteConnections :: "string \<rightharpoonup> ws list"

text \<open>
  The messages that the server sends, by their \<open>type\<close>. The payload of \<open>conflict\<close> is the
  field \<open>error\<close> of the result of \<open>operationalTransform\<close>.
\<close>

datatype ServerMessage =
    ErrorMessage string
  | Ack Hash
  | Update Hash "Operation list"
  | Conflict "js_error option"
  | UserCountUpdate nat

text \<open>The parsed frame \<open>{type, payload: {base_hash, operations}}\<close>.\<close>

record ClientMessage =
  msg_type :: string
  msg_base_hash :: Hash
  msg_operations :: "Operation list"

text \<open>
  What a run of the handler leaves behind: the state and the messages sent, in order, to
  which socket. The handler returns, or an exception leaves it uncaught. \<open>Unmodelled\<close>
  stands for the one situation left out: \<open>null\<close> or \<open>undefined\<close> reaching \<open>commit\<close>,
  where the external hasher decides what happens.
\<close>

datatype Outcome =
    Returned ServerState "(ws \<times> ServerMessage) list"
  | Threw js_error ServerState "(ws \<times> ServerMessage) list"
  | Unmodelled

definition getHistoryForNote ::
  "(string \<Rightarrow> Hash) \<Rightarrow> ServerState \<Rightarrow> string \<Rightarrow> string \<Rightarrow> VersionHistory \<times> ServerState" where
  "getHistoryForNote sha1 st noteId now =
     (case noteHistories st noteId of
        None \<Rightarrow>
          (let newHistory =
                 snd (commit sha1 (newVersionHistory noteId) (Blob []) ''Initial empty commit'' now now)
           in (newHistory, st\<lparr>noteHistories := (noteHistories st)(noteId \<mapsto> newHistory)\<rparr>))
      | Some h \<Rightarrow> (h, st))"

text \<open>
  \<open>for (const client of noteConnections.get(noteId) || []) if (client !== ws)
  client.send(updateMessage)\<close>.
\<close>

definition sendToOthers :: "ServerState \<Rightarrow> string \<Rightarrow> ws \<Rightarrow> ServerMessage \<Rightarrow> (ws \<times> ServerMessage) list" where
  "sendToOthers st noteId sender m =
     map (\<lambda>client. (client, m))
       (filter (\<lambda>client. client \<noteq> sender)
          (case noteConnections st noteId of None \<Rightarrow> [] | Some clients \<Rightarrow> clients))"

text \<open>
  The handler. \<open>now0\<close> is the clock when the history of the note has to be created, \<open>now\<close>
  the clock at the commit of this request (the messages passed to \<open>commit\<close> are not empty,
  so the clock of the default message is not read).
\<close>

definition websocket_message ::
  "(string \<Rightarrow> Hash) \<Rightarrow> ServerState \<Rightarrow> ws \<Rightarrow> string \<Rightarrow> ClientMessage \<Rightarrow> string \<Rightarrow> string \<Rightarrow> Outcome" where
  "websocket_message sha1 st sender noteId msg now0 now =
     (if msg_type msg \<noteq> ''sync'' then Returned st []
      else
        let base_hash = msg_base_hash msg;
            client_ops = msg_operations msg;
            (noteHistory, st1) = getHistoryForNote sha1 st noteId now0;
            base_content = getContent noteHistory (Some base_hash);
            server_content = getCurrentContent noteHistory
        in
          if base_content = Null then
            Returned st1 [(sender, ErrorMessage ''Base hash not found. Please reload.'')]
          else if Some base_hash = getHeadHash noteHistory then
            (case applyOperations_js base_content client_ops of
               Inl e \<Rightarrow> Threw e st1 []
             | Inr Null \<Rightarrow> Unmodelled
             | Inr Undefined \<Rightarrow> Unmodelled
             | Inr (Val client_content) \<Rightarrow>
                 (let (newCommitHash, history') =
                        commit sha1 noteHistory client_content ''Update from client'' now now;
                      st2 = st1\<lparr>noteHistories := (noteHistories st1)(noteId \<mapsto> history')\<rparr>
                  in Returned st2
                       ((sender, Ack newCommitHash)
                        # sendToOthers st2 noteId sender (Update newCommitHash client_ops))))
          else
            (case applyOperations_js base_content client_ops of
               Inl e \<Rightarrow> Threw e st1 []
             | Inr client_content \<Rightarrow>
                 (let r = operationalTransform base_content client_content server_content diff_js
                  in if \<not> success r then Returned st1 [(sender, Conflict (error r))]
                     else case mergedContent r of
                       Some (Val merged) \<Rightarrow>
                         (let (newCommitHash, history') =
                                commit sha1 noteHistory merged ''Merged update from client'' now now;
                              st2 = st1\<lparr>noteHistories := (noteHistories st1)(noteId \<mapsto> history')\<rparr>
                          in case diff_js server_content (Val merged) of
                               Inl e \<Rightarrow> Threw e st2 [(sender, Ack newCommitHash)]
                             | Inr server_update_diff \<Rightarrow>
                                 (let server_update_ops = diffToOperations server_update_diff
                                  in Returned st2
                                       ((sender, Ack newCommitHash)
                                        # (if length server_update_ops > 0
                                           then sendToOthers st2 noteId sender
                                                  (Update newCommitHash server_update_ops)
                                           else []))))
                     | _ \<Rightarrow> Unmodelled)))"

section \<open>Auxiliary functions of the proofs\<close>

text \<open>
  The characters that a list of character diffs takes from the left string and those it
  puts into the right string, and the operations that \<open>diffToOperations\<close> makes of the
  list when its cursor stands at \<open>p\<close>.
\<close>

fun source_chars :: "CharDiff list \<Rightarrow> string" where
  "source_chars [] = []"
| "source_chars (d # ds) = (if cd_type d = CAdded then [] else cd_char d) @ source_chars ds"

fun target_chars :: "CharDiff list \<Rightarrow> string" where
  "target_chars [] = []"
| "target_chars (d # ds) = (if cd_type d = CRemoved then [] else cd_char d) @ target_chars ds"

fun char_ops :: "int \<Rightarrow> CharDiff list \<Rightarrow> Operation list" where
  "char_ops p [] = []"
| "char_ops p (d # ds) =
     (case cd_type d of
        CUnchanged \<Rightarrow>
          \<lparr>op_type = Retain, op_length = Some (int (length (cd_char d))), op_text = None, position = p\<rparr>
            # char_ops (p + int (length (cd_char d))) ds
      | CAdded \<Rightarrow>
          \<lparr>op_type = Insert, op_length = None, op_text = Some (cd_char d), position = p\<rparr>
            # char_ops p ds
      | CRemoved \<Rightarrow>
          \<lparr>op_type = Delete, op_length = Some (int (length (cd_char d))), op_text = None, position = p\<rparr>
            # char_ops (p + int (length (cd_char d))) ds)"

text \<open>The shape of the table \<open>dp\<close>: \<open>n + 1\<close> rows of \<open>m + 1\<close> cells.\<close>

definition table_shape :: "nat \<Rightarrow> nat \<Rightarrow> nat list list \<Rightarrow> bool" where
  "table_shape n m dp = (length dp = n + 1 \<and> (\<forall>row \<in> set dp. length row = m + 1))"

definition consumed :: "Operation list \<Rightarrow> int" where
  "consumed ops = sum_list (map lengthOr0 (filter (\<lambda>op. op_type op \<noteq> Insert) ops))"

abbreviation opRetain :: "int \<Rightarrow> Operation" where
  "opRetain p \<equiv> \<lparr>op_type = Retain, op_length = Some 1, op_text = None, position = p\<rparr>"

abbreviation opInsert :: "string \<Rightarrow> int \<Rightarrow> Operation" where
  "opInsert t p \<equiv> \<lparr>op_type = Insert, op_length = None, op_text = Some t, position = p\<rparr>"

abbreviation opDelete :: "int \<Rightarrow> Operation" where
  "opDelete p \<equiv> \<lparr>op_type = Delete, op_length = Some 1, op_text = None, position = p\<rparr>"

text \<open>The frame of a sync request.\<close>

abbreviation sync :: "Hash \<Rightarrow> Operation list \<Rightarrow> ClientMessage" where
  "sync h ops \<equiv> \<lparr>msg_type = ''sync'', msg_base_hash = h, msg_operations = ops\<rparr>"

subsection \<open>Runs of \<open>applyOperations\<close> within the bounds of the engine\<close>

text \<open>
  A run of the loop of \<open>applyOperations\<close> from a state fits when no insert or delete
  produces a string longer than the engine allows. It is exact when every number that the
  loop reads or computes has a magnitude of at most \<open>2^53\<close>, so that the doubles of the
  engine and the integers of the model agree. The operations \<open>doublingDelete 0, 1, \<dots>\<close> are
  deletes at position 1 with the negative lengths \<open>-1, -2, -4, \<dots>\<close>.
\<close>

fun fits :: "string \<times> int \<Rightarrow> Operation list \<Rightarrow> bool" where
  "fits st [] = True"
| "fits st (op # ops) =
     ((op_type op = Retain \<or> int (length (fst (applyOp st op))) \<le> maxStringLength) \<and>
      fits (applyOp st op) ops)"

definition exactInt :: "int \<Rightarrow> bool" where
  "exactInt x = (\<bar>x\<bar> \<le> 2 ^ 53)"

fun exact_run :: "string \<times> int \<Rightarrow> Operation list \<Rightarrow> bool" where
  "exact_run st [] = True"
| "exact_run st (op # ops) =
     (exactInt (position op) \<and> exactInt (lengthOr0 op) \<and> exactInt (snd st) \<and>
      exactInt (position op + snd st) \<and> exactInt (position op + snd st + lengthOr0 op) \<and>
      exactInt (snd (applyOp st op)) \<and> exact_run (applyOp st op) ops)"

definition doublingDelete :: "nat \<Rightarrow> Operation" where
  "doublingDelete k = \<lparr>op_type = Delete, op_length = Some (- (2 ^ k)), op_text = None, position = 1\<rparr>"

subsection \<open>Stores without key collision\<close>

text \<open>The commit object that \<open>commit\<close> builds.\<close>

definition commitDataOf :: "(string \<Rightarrow> Hash) \<Rightarrow> VersionHistory \<Rightarrow> GitObject \<Rightarrow> string \<Rightarrow> string \<Rightarrow> string \<Rightarrow> Commit" where
  "commitDataOf sha1 vh content msg now1 now2 =
     \<lparr>tree = hashObject sha1 (TreeObj [(filename vh, hashObject sha1 content)]), parent = HEAD vh,
      message = (if msg \<noteq> [] then msg else ''Commit at '' @ now1), timestamp = now2\<rparr>"

text \<open>
  A commit without key collision: the three keys that \<open>commit\<close> computes are not empty and
  differ from one another, and each is new to the store or already holds exactly the
  object that \<open>commit\<close> is about to put there.
\<close>

definition clean_commit ::
  "(string \<Rightarrow> Hash) \<Rightarrow> VersionHistory \<Rightarrow> GitObject \<Rightarrow> string \<Rightarrow> string \<Rightarrow> string \<Rightarrow> bool" where
  "clean_commit sha1 vh content msg now1 now2 =
     (let blobHash = hashObject sha1 content;
          treeData = [(filename vh, blobHash)];
          treeHash = hashObject sha1 (TreeObj treeData);
          commitData = commitDataOf sha1 vh content msg now1 now2;
          commitHash = hashObject sha1 (CommitObj commitData)
      in blobHash \<noteq> [] \<and> treeHash \<noteq> [] \<and> commitHash \<noteq> [] \<and>
         blobHash \<noteq> treeHash \<and> blobHash \<noteq> commitHash \<and> treeHash \<noteq> commitHash \<and>
         (db vh blobHash = None \<or> db vh blobHash = Some content) \<and>
         (db vh treeHash = None \<or> db vh treeHash = Some (TreeObj treeData)) \<and>
         (db vh commitHash = None \<or> db vh commitHash = Some (CommitObj commitData)))"

text \<open>
  What the round trip needs of these conditions, and what the growth of the store needs:
  the blob and tree keys taken as above, with no condition on what the commit key held;
  and a commit key that is new to the store.
\<close>

definition readable_commit ::
  "(string \<Rightarrow> Hash) \<Rightarrow> VersionHistory \<Rightarrow> GitObject \<Rightarrow> string \<Rightarrow> string \<Rightarrow> string \<Rightarrow> bool" where
  "readable_commit sha1 vh content msg now1 now2 =
     (let blobHash = hashObject sha1 content;
          treeData = [(filename vh, blobHash)];
          treeHash = hashObject sha1 (TreeObj treeData);
          commitHash = hashObject sha1 (CommitObj (commitDataOf sha1 vh content msg now1 now2))
      in blobHash \<noteq> [] \<and> commitHash \<noteq> [] \<and>
         blobHash \<noteq> treeHash \<and> blobHash \<noteq> commitHash \<and> treeHash \<noteq> commitHash \<and>
         (db vh blobHash = None \<or> db vh blobHash = Some content) \<and>
         (db vh treeHash = None \<or> db vh treeHash = Some (TreeObj treeData)))"

definition fresh_commit ::
  "(string \<Rightarrow> Hash) \<Rightarrow> VersionHistory \<Rightarrow> GitObject \<Rightarrow> string \<Rightarrow> string \<Rightarrow> string \<Rightarrow> bool" where
  "fresh_commit sha1 vh content msg now1 now2 =
     (db vh (hashObject sha1 (CommitObj (commitDataOf sha1 vh content msg now1 now2))) = None)"

text \<open>
  A commit resolves when its tree hash leads to a tree whose entry for the file name is
  a key of the store. A hash is rooted when the chain of parents from it ends, after
  finitely many commits that all resolve, at a commit without parent.
\<close>

definition resolves :: "(Hash \<rightharpoonup> GitObject) \<Rightarrow> string \<Rightarrow> Commit \<Rightarrow> bool" where
  "resolves d fname c =
     (case d (tree c) of
        Some (TreeObj t) \<Rightarrow> (case map_of t fname of Some b \<Rightarrow> d b \<noteq> None | None \<Rightarrow> False)
      | _ \<Rightarrow> False)"

inductive rooted :: "(Hash \<rightharpoonup> GitObject) \<Rightarrow> string \<Rightarrow> Hash \<Rightarrow> bool" for d fname where
  root: "d h = Some (CommitObj c) \<Longrightarrow> parent c = None \<Longrightarrow> resolves d fname c \<Longrightarrow> rooted d fname h"
| step: "d h = Some (CommitObj c) \<Longrightarrow> parent c = Some p \<Longrightarrow> resolves d fname c \<Longrightarrow>
         rooted d fname p \<Longrightarrow> rooted d fname h"

code_pred rooted .

text \<open>The chain alone: from the hash through the parents to a commit without parent.\<close>

inductive chained :: "(Hash \<rightharpoonup> GitObject) \<Rightarrow> Hash \<Rightarrow> bool" for d where
  last: "d h = Some (CommitObj c) \<Longrightarrow> parent c = None \<Longrightarrow> chained d h"
| link: "d h = Some (CommitObj c) \<Longrightarrow> parent c = Some p \<Longrightarrow> chained d p \<Longrightarrow> chained d h"

code_pred chained .

text \<open>A sequence of calls of \<open>commit\<close> with string contents, each with its message and clock.\<close>

fun commits ::
  "(string \<Rightarrow> Hash) \<Rightarrow> VersionHistory \<Rightarrow> (string \<times> string \<times> string \<times> string) list \<Rightarrow> VersionHistory" where
  "commits sha1 vh [] = vh"
| "commits sha1 vh ((content, msg, now1, now2) # rest) =
     commits sha1 (snd (commit sha1 vh (Blob content) msg now1 now2)) rest"

fun clean_commits ::
  "(string \<Rightarrow> Hash) \<Rightarrow> VersionHistory \<Rightarrow> (string \<times> string \<times> string \<times> string) list \<Rightarrow> bool" where
  "clean_commits sha1 vh [] = True"
| "clean_commits sha1 vh ((content, msg, now1, now2) # rest) =
     (clean_commit sha1 vh (Blob content) msg now1 now2 \<and>
      clean_commits sha1 (snd (commit sha1 vh (Blob content) msg now1 now2)) rest)"

fun fresh_commits ::
  "(string \<Rightarrow> Hash) \<Rightarrow> VersionHistory \<Rightarrow> (string \<times> string \<times> string \<times> string) list \<Rightarrow> bool" where
  "fresh_commits sha1 vh [] = True"
| "fresh_commits sha1 vh ((content, msg, now1, now2) # rest) =
     (fresh_commit sha1 vh (Blob content) msg now1 now2 \<and>
      fresh_commits sha1 (snd (commit sha1 vh (Blob content) msg now1 now2)) rest)"

definition head_rooted :: "VersionHistory \<Rightarrow> bool" where
  "head_rooted vh = (case HEAD vh of None \<Rightarrow> True | Some h \<Rightarrow> rooted (db vh) (filename vh) h)"

definition head_chained :: "VersionHistory \<Rightarrow> bool" where
  "head_chained vh = (case HEAD vh of None \<Rightarrow> True | Some h \<Rightarrow> chained (db vh) h)"

subsection \<open>A small server and two small stores\<close>

text \<open>
  A small server on which the theorems below are tried: a stand-in for the digest that
  has no collisions and never returns the empty string, one note \<open>n\<close> with two
  connections, its history created at \<open>t0\<close>, and the states reached from there by sync
  requests of client 1.
\<close>

definition example_digest :: "string \<Rightarrow> Hash" where
  "example_digest s = CHR ''h'' # s"

definition example_server :: ServerState where
  "example_server = \<lparr>noteHistories = Map.empty, noteConnections = [''n'' \<mapsto> [1, 2]]\<rparr>"

definition example_room :: ServerState where
  "example_room = snd (getHistoryForNote example_digest example_server ''n'' ''t0'')"

definition example_h0 :: Hash where
  "example_h0 = the (HEAD (the (noteHistories example_room ''n'')))"

fun after :: "Outcome \<Rightarrow> ServerState" where
  "after (Returned st sends) = st"
| "after (Threw e st sends) = st"
| "after Unmodelled = example_server"

definition example_ab :: ServerState where
  "example_ab =
     after (websocket_message example_digest example_room 1 ''n''
              (sync example_h0 [opInsert ''ab'' 0]) ''t0'' ''t1'')"

definition example_h1 :: Hash where
  "example_h1 = the (HEAD (the (noteHistories example_ab ''n'')))"

definition example_b :: ServerState where
  "example_b =
     after (websocket_message example_digest example_ab 1 ''n''
              (sync example_h1 [opDelete 0]) ''t0'' ''t2'')"

definition example_confused :: ServerState where
  "example_confused =
     after (websocket_message example_digest example_room 1 ''n''
              (sync example_h0 [opInsert (stringifyTree [(''n'', example_digest [])]) 0]) ''t0'' ''t1'')"

text \<open>
  From the state in which \<open>HEAD\<close> holds a tree object: a sync request without operations
  on that \<open>HEAD\<close>, which commits the object again and leaves the old \<open>HEAD\<close> behind as a
  base that is not a string.
\<close>

definition example_h2 :: Hash where
  "example_h2 = the (HEAD (the (noteHistories example_confused ''n'')))"

definition example_stale :: ServerState where
  "example_stale =
     after (websocket_message example_digest example_confused 1 ''n''
              (sync example_h2 []) ''t0'' ''t2'')"

text \<open>
  The note \<open>n\<close> again: client 1 types \<open>a\<close> and then appends \<open>b\<close>, which leaves the commit
  of \<open>a\<close> behind as a base that is not \<open>HEAD\<close>.
\<close>

definition example_a :: ServerState where
  "example_a =
     after (websocket_message example_digest example_room 1 ''n''
              (sync example_h0 [opInsert ''a'' 0]) ''t0'' ''t1'')"

definition example_ha :: Hash where
  "example_ha = the (HEAD (the (noteHistories example_a ''n'')))"

definition example_a_b :: ServerState where
  "example_a_b =
     after (websocket_message example_digest example_a 1 ''n''
              (sync example_ha [opInsert ''b'' 1]) ''t0'' ''t2'')"

text \<open>
  A second note, with the id \<open>length\<close>: client 1 types the JSON text of the tree of \<open>x\<close>
  into the empty note, and then replaces it by \<open>x\<close>.
\<close>

definition example_length_server :: ServerState where
  "example_length_server = \<lparr>noteHistories = Map.empty, noteConnections = [''length'' \<mapsto> [1, 2]]\<rparr>"

definition example_length_room :: ServerState where
  "example_length_room =
     snd (getHistoryForNote example_digest example_length_server ''length'' ''t0'')"

definition example_length_text :: string where
  "example_length_text = stringifyTree [(''length'', example_digest ''x'')]"

definition example_l0 :: Hash where
  "example_l0 = the (HEAD (the (noteHistories example_length_room ''length'')))"

definition example_length_typed :: ServerState where
  "example_length_typed =
     after (websocket_message example_digest example_length_room 1 ''length''
              (sync example_l0 [opInsert example_length_text 0]) ''t0'' ''t1'')"

definition example_l1 :: Hash where
  "example_l1 = the (HEAD (the (noteHistories example_length_typed ''length'')))"

definition example_length_x :: ServerState where
  "example_length_x =
     after (websocket_message example_digest example_length_typed 1 ''length''
              (sync example_l1
                 [opInsert ''x'' 0,
                  \<lparr>op_type = Delete, op_length = Some (int (length example_length_text)),
                   op_text = None, position = 0\<rparr>]) ''t0'' ''t2'')"

definition example_l2 :: Hash where
  "example_l2 = the (HEAD (the (noteHistories example_length_x ''length'')))"

text \<open>
  Two stores with the default file name: one commit of \<open>x\<close>; and the JSON text of the tree
  of \<open>x\<close> committed as a content before \<open>x\<close> itself.
\<close>

definition example_text :: string where
  "example_text = stringifyTree [(''note.txt'', example_digest ''x'')]"

definition example_store :: VersionHistory where
  "example_store = commits example_digest (newVersionHistory ''note.txt'') [(''x'', ''first'', ''t1'', ''t1'')]"

definition example_store2 :: VersionHistory where
  "example_store2 =
     commits example_digest (newVersionHistory ''note.txt'')
       [(example_text, ''first'', ''t1'', ''t1''), (''x'', ''second'', ''t2'', ''t2'')]"

section \<open>The diff is an edit script from the left string to the right string\<close>

text \<open>
  The table keeps its shape while it is filled, so the reconstruction loop, which starts
  at \<open>(n, m)\<close> and only decreases its indices, reads the table and the two strings within
  their bounds.
\<close>

lemma update_shape:
  assumes "table_shape n m dp"
  shows "table_shape n m (dp[i := (dp ! i)[j := v]])"
proof (cases "i < length dp")
  case True
  let ?r = "(dp ! i)[j := v]"
  from assms True have "length ?r = m + 1"
    by (simp add: table_shape_def)
  moreover have "set (dp[i := ?r]) \<subseteq> insert ?r (set dp)"
    by (rule set_update_subset_insert)
  ultimately have "\<forall>row \<in> set (dp[i := ?r]). length row = m + 1"
    using assms unfolding table_shape_def by blast
  with assms show ?thesis
    by (simp add: table_shape_def)
next
  case False
  then have "dp[i := (dp ! i)[j := v]] = dp"
    by (simp add: list_update_beyond)
  with assms show ?thesis by simp
qed

lemma dp_assign_shape:
  "table_shape n m dp \<Longrightarrow> table_shape n m (dp_assign chars1 chars2 i j dp)"
  by (simp add: dp_assign_def update_shape)

lemma foldl_shape:
  assumes "\<And>dp x. table_shape n m dp \<Longrightarrow> table_shape n m (f dp x)"
    and "table_shape n m dp"
  shows "table_shape n m (foldl f dp xs)"
  using assms(2) by (induction xs arbitrary: dp) (simp_all add: assms(1))

lemma dp_table_shape:
  "length (dp_table a b) = length a + 1 \<and>
   (\<forall>row \<in> set (dp_table a b). length row = length b + 1)"
proof -
  let ?n = "length a" and ?m = "length b"
  have inner: "table_shape ?n ?m (foldl (\<lambda>dp j. dp_assign a b i j dp) dp [1..<?m + 1])"
    if "table_shape ?n ?m dp" for dp i
    using that by (rule foldl_shape [rotated]) (rule dp_assign_shape)
  have start: "table_shape ?n ?m (replicate (?n + 1) (replicate (?m + 1) 0))"
    by (simp add: table_shape_def)
  have "table_shape ?n ?m (dp_table a b)"
    unfolding dp_table_def Let_def
    using start by (rule foldl_shape [rotated]) (rule inner)
  then show ?thesis by (simp add: table_shape_def)
qed

lemma source_chars_append: "source_chars (xs @ ys) = source_chars xs @ source_chars ys"
  by (induction xs) simp_all

lemma target_chars_append: "target_chars (xs @ ys) = target_chars xs @ target_chars ys"
  by (induction xs) simp_all

lemma take_last_index:
  "0 < i \<Longrightarrow> i \<le> length xs \<Longrightarrow> take i xs = take (i - 1) xs @ [xs ! (i - 1)]"
  by (cases i) (simp_all add: take_Suc_conv_app_nth)

lemma backtrack_stop: "backtrack dp a b 0 0 r = r"
  by (subst backtrack.simps) simp

lemma backtrack_unchanged:
  "0 < i \<Longrightarrow> 0 < j \<Longrightarrow> a ! (i - 1) = b ! (j - 1) \<Longrightarrow>
   backtrack dp a b i j r =
     backtrack dp a b (i - 1) (j - 1) (\<lparr>cd_char = [a ! (i - 1)], cd_type = CUnchanged\<rparr> # r)"
  by (subst backtrack.simps) simp

lemma backtrack_added:
  "0 < j \<Longrightarrow> \<not> (0 < i \<and> a ! (i - 1) = b ! (j - 1)) \<Longrightarrow>
   i = 0 \<or> dp ! (i - 1) ! j \<le> dp ! i ! (j - 1) \<Longrightarrow>
   backtrack dp a b i j r =
     backtrack dp a b i (j - 1) (\<lparr>cd_char = [b ! (j - 1)], cd_type = CAdded\<rparr> # r)"
  by (subst backtrack.simps) auto

lemma backtrack_removed:
  "0 < i \<Longrightarrow> \<not> (0 < j \<and> a ! (i - 1) = b ! (j - 1)) \<Longrightarrow>
   j = 0 \<or> dp ! i ! (j - 1) < dp ! (i - 1) ! j \<Longrightarrow>
   backtrack dp a b i j r =
     backtrack dp a b (i - 1) j (\<lparr>cd_char = [a ! (i - 1)], cd_type = CRemoved\<rparr> # r)"
  by (subst backtrack.simps) auto

lemma backtrack_script:
  "i \<le> length a \<Longrightarrow> j \<le> length b \<Longrightarrow>
   \<exists>ds. backtrack dp a b i j acc = ds @ acc \<and> source_chars ds = take i a \<and>
        target_chars ds = take j b \<and> (\<forall>d \<in> set ds. length (cd_char d) = 1)"
proof (induction "i + j" arbitrary: i j acc rule: less_induct)
  case less
  consider (stop) "i = 0" "j = 0"
    | (unchanged) "0 < i" "0 < j" "a ! (i - 1) = b ! (j - 1)"
    | (added) "0 < j" "\<not> (0 < i \<and> a ! (i - 1) = b ! (j - 1))"
        "i = 0 \<or> dp ! (i - 1) ! j \<le> dp ! i ! (j - 1)"
    | (removed) "0 < i" "\<not> (0 < j \<and> a ! (i - 1) = b ! (j - 1))"
        "j = 0 \<or> dp ! i ! (j - 1) < dp ! (i - 1) ! j"
    by (cases "i = 0"; cases "j = 0"; cases "a ! (i - 1) = b ! (j - 1)";
        cases "dp ! (i - 1) ! j \<le> dp ! i ! (j - 1)") auto
  then show ?case
  proof cases
    case stop
    then show ?thesis by (simp add: backtrack_stop)
  next
    case unchanged
    let ?d = "\<lparr>cd_char = [a ! (i - 1)], cd_type = CUnchanged\<rparr>"
    from unchanged less.prems have "(i - 1) + (j - 1) < i + j" "i - 1 \<le> length a" "j - 1 \<le> length b"
      by auto
    from less.hyps [OF this, of "?d # acc"] obtain ds where
      ds: "backtrack dp a b (i - 1) (j - 1) (?d # acc) = ds @ ?d # acc"
        "source_chars ds = take (i - 1) a" "target_chars ds = take (j - 1) b"
        "\<forall>d \<in> set ds. length (cd_char d) = 1"
      by blast
    from unchanged less.prems have ta: "take i a = take (i - 1) a @ [a ! (i - 1)]"
      and tb: "take j b = take (j - 1) b @ [a ! (i - 1)]"
      using take_last_index [of i a] take_last_index [of j b] by simp_all
    have "backtrack dp a b i j acc = (ds @ [?d]) @ acc"
      using ds(1) by (simp add: backtrack_unchanged [OF unchanged])
    moreover have "source_chars (ds @ [?d]) = take i a" "target_chars (ds @ [?d]) = take j b"
      using ds(2,3) ta tb by (simp_all add: source_chars_append target_chars_append)
    moreover have "\<forall>d \<in> set (ds @ [?d]). length (cd_char d) = 1"
      using ds(4) by simp
    ultimately show ?thesis by blast
  next
    case added
    let ?d = "\<lparr>cd_char = [b ! (j - 1)], cd_type = CAdded\<rparr>"
    from added less.prems have "i + (j - 1) < i + j" "j - 1 \<le> length b"
      by auto
    from less.hyps [OF this(1) less.prems(1) this(2), of "?d # acc"] obtain ds where
      ds: "backtrack dp a b i (j - 1) (?d # acc) = ds @ ?d # acc"
        "source_chars ds = take i a" "target_chars ds = take (j - 1) b"
        "\<forall>d \<in> set ds. length (cd_char d) = 1"
      by blast
    from added less.prems have tb: "take j b = take (j - 1) b @ [b ! (j - 1)]"
      using take_last_index [of j b] by simp
    have "backtrack dp a b i j acc = (ds @ [?d]) @ acc"
      using ds(1) by (simp add: backtrack_added [OF added])
    moreover have "source_chars (ds @ [?d]) = take i a" "target_chars (ds @ [?d]) = take j b"
      using ds(2,3) tb by (simp_all add: source_chars_append target_chars_append)
    moreover have "\<forall>d \<in> set (ds @ [?d]). length (cd_char d) = 1"
      using ds(4) by simp
    ultimately show ?thesis by blast
  next
    case removed
    let ?d = "\<lparr>cd_char = [a ! (i - 1)], cd_type = CRemoved\<rparr>"
    from removed less.prems have "(i - 1) + j < i + j" "i - 1 \<le> length a"
      by auto
    from less.hyps [OF this less.prems(2), of "?d # acc"] obtain ds where
      ds: "backtrack dp a b (i - 1) j (?d # acc) = ds @ ?d # acc"
        "source_chars ds = take (i - 1) a" "target_chars ds = take j b"
        "\<forall>d \<in> set ds. length (cd_char d) = 1"
      by blast
    from removed less.prems have ta: "take i a = take (i - 1) a @ [a ! (i - 1)]"
      using take_last_index [of i a] by simp
    have "backtrack dp a b i j acc = (ds @ [?d]) @ acc"
      using ds(1) by (simp add: backtrack_removed [OF removed])
    moreover have "source_chars (ds @ [?d]) = take i a" "target_chars (ds @ [?d]) = take j b"
      using ds(2,3) ta by (simp_all add: source_chars_append target_chars_append)
    moreover have "\<forall>d \<in> set (ds @ [?d]). length (cd_char d) = 1"
      using ds(4) by simp
    ultimately show ?thesis by blast
  qed
qed


lemma generateCharacterDiff_script:
  "source_chars (generateCharacterDiff a b) = a \<and> target_chars (generateCharacterDiff a b) = b \<and>
   (\<forall>d \<in> set (generateCharacterDiff a b). length (cd_char d) = 1)"
  using backtrack_script [of "length a" a "length b" b "dp_table a b" "[]"]
  by (auto simp: generateCharacterDiff_def Let_def)

lemma foldl_diffOp_char_ops:
  "foldl diffOp (acc, p) (map charDiffResult ds) =
     (acc @ char_ops p ds, p + int (length (source_chars ds)))"
  by (induction ds arbitrary: acc p) (auto split: CharDiffType.splits)

lemma diffToOperations_char_ops:
  "diffToOperations (map charDiffResult ds) = char_ops 0 ds"
  by (simp add: diffToOperations_def foldl_diffOp_char_ops)

lemma char_ops_lower: "op \<in> set (char_ops p ds) \<Longrightarrow> p \<le> position op"
  by (induction ds arbitrary: p) (fastforce split: CharDiffType.splits)+

lemma char_ops_sorted: "sorted (map position (char_ops p ds))"
  by (induction ds arbitrary: p) (fastforce split: CharDiffType.splits dest: char_ops_lower)+

lemma slice_prefix: "slice (pre @ rest) 0 (int (length pre)) = pre"
  by (simp add: slice_def sliceIndex_def)

lemma sliceFrom_prefix: "sliceFrom (pre @ rest) (int (length pre)) = rest"
  by (simp add: sliceFrom_def sliceIndex_def)

lemma sliceFrom_skip: "sliceFrom (pre @ c @ rest) (int (length pre) + int (length c)) = rest"
  using sliceFrom_prefix [of "pre @ c" rest] by simp

lemma foldl_applyOp_char_ops:
  "p + off = int (length pre) \<Longrightarrow>
   fst (foldl applyOp (pre @ source_chars ds @ rest, off) (char_ops p ds)) =
     pre @ target_chars ds @ rest"
proof (induction ds arbitrary: p off pre)
  case Nil
  then show ?case by simp
next
  case (Cons d ds)
  show ?case
  proof (cases "cd_type d")
    case CAdded
    have "p + (off + int (length (cd_char d))) = int (length (pre @ cd_char d))"
      using Cons.prems by simp
    from Cons.IH [OF this] show ?thesis
      using CAdded Cons.prems
      by (simp add: slice_prefix sliceFrom_prefix textConcat_def textLength_def)
  next
    case CRemoved
    have "(p + int (length (cd_char d))) + (off - int (length (cd_char d))) = int (length pre)"
      using Cons.prems by simp
    from Cons.IH [OF this] show ?thesis
      using CRemoved Cons.prems
      by (simp add: slice_prefix sliceFrom_skip lengthOr0_def)
  next
    case CUnchanged
    have "(p + int (length (cd_char d))) + off = int (length (pre @ cd_char d))"
      using Cons.prems by simp
    from Cons.IH [OF this] show ?thesis
      using CUnchanged by simp
  qed
qed

lemma applyOperations_char_ops:
  "applyOperations (source_chars ds) (char_ops 0 ds) = target_chars ds"
  using foldl_applyOp_char_ops [of 0 0 "[]" ds "[]"]
  by (simp add: applyOperations_def sort_key_id_if_sorted char_ops_sorted)

text \<open>
  Claim C1. For all strings \<open>a\<close> and \<open>b\<close>, \<open>diff(a, a)\<close> is the empty list, and applying
  \<open>diffToOperations(diff(a, b))\<close> to \<open>a\<close> with \<open>applyOperations\<close> yields exactly \<open>b\<close>.
\<close>

theorem diff_roundtrip:
  "diff a a = [] \<and> applyOperations a (diffToOperations (diff a b)) = b"
proof (cases "a = b")
  case True
  then show ?thesis
    by (simp add: diff_def diffToOperations_def applyOperations_def)
next
  case False
  then show ?thesis
    using applyOperations_char_ops [of "generateCharacterDiff a b"] generateCharacterDiff_script [of a b]
    by (simp add: diff_def diffToOperations_char_ops)
qed

section \<open>Applying operations to a string\<close>

lemma applyOp_Retain: "op_type op = Retain \<Longrightarrow> applyOp st op = st"
  by (cases st) simp

lemma foldl_js_applyOp_string:
  "foldl_js applyOp_js (Val (Blob r), off) ops =
     (if fits (r, off) ops
      then Inr (Val (Blob (fst (foldl applyOp (r, off) ops))), snd (foldl applyOp (r, off) ops))
      else Inl RangeError)"
proof (induction ops arbitrary: r off)
  case Nil
  then show ?case by simp
next
  case (Cons op ops)
  obtain r' off' where step: "applyOp (r, off) op = (r', off')"
    by (cases "applyOp (r, off) op")
  show ?case
  proof (cases "op_type op")
    case Retain
    then show ?thesis using Cons.IH [of r off] by simp
  next
    case Insert
    then show ?thesis using Cons.IH [of r' off'] step by (simp del: applyOp.simps)
  next
    case Delete
    then show ?thesis using Cons.IH [of r' off'] step by (simp del: applyOp.simps)
  qed
qed

lemma applyOperations_js_string:
  "fits (content, 0) (sort_key position ops) \<Longrightarrow>
   applyOperations_js (Val (Blob content)) ops = Inr (Val (Blob (applyOperations content ops)))"
  by (simp add: applyOperations_js_def applyOperations_def foldl_js_applyOp_string)

text \<open>
  Claim C9, as amended. On a content string, and as long as the numbers stay exact,
  \<open>applyOperations\<close> never raises a \<open>TypeError\<close>, whatever the positions, lengths and texts
  of the operations (negative, out of range or absent): it returns a string when every
  intermediate result fits the maximal string length, and raises a \<open>RangeError\<close> otherwise.
\<close>

theorem applyOperations_total:
  "exact_run (content, 0) (sort_key position operations) \<Longrightarrow>
   applyOperations_js (Val (Blob content)) operations =
     (if fits (content, 0) (sort_key position operations)
      then Inr (Val (Blob (applyOperations content operations)))
      else Inl RangeError)"
  by (simp add: applyOperations_js_def applyOperations_def foldl_js_applyOp_string)

lemma doubling_step:
  "applyOp (replicate (2 ^ k) c, 2 ^ k - 1) (doublingDelete k) =
     (replicate (2 ^ (Suc k)) c, 2 ^ (Suc k) - 1)"
proof -
  let ?r = "replicate (2 ^ k) c"
  have "slice ?r 0 (2 ^ k) = ?r"
    by (simp add: slice_def sliceIndex_def)
  moreover have "sliceFrom ?r 0 = ?r"
    by (simp add: sliceFrom_def sliceIndex_def)
  moreover have "?r @ ?r = replicate (2 ^ (Suc k)) c"
    by (simp add: replicate_add [symmetric] mult_2)
  ultimately show ?thesis
    by (simp add: doublingDelete_def lengthOr0_def)
qed

lemma doubling_raises:
  "k < n \<Longrightarrow> maxStringLength < 2 ^ n \<Longrightarrow>
   foldl_js applyOp_js (Val (Blob (replicate (2 ^ k) c)), 2 ^ k - 1) (map doublingDelete [k..<n]) =
     Inl RangeError"
proof (induction "n - k" arbitrary: k)
  case 0
  then show ?case by simp
next
  case (Suc d)
  from Suc.prems have upt: "[k..<n] = k # [Suc k..<n]"
    by (simp add: upt_conv_Cons)
  have type: "op_type (doublingDelete k) = Delete"
    by (simp add: doublingDelete_def)
  show ?case
  proof (cases "(2::int) ^ (Suc k) > maxStringLength")
    case True
    then show ?thesis
      unfolding upt using doubling_step [of k c] type
      by (simp del: applyOp.simps power_Suc)
  next
    case False
    have "Suc k < n"
    proof (rule ccontr)
      assume "\<not> Suc k < n"
      with Suc.prems have "n = Suc k" by simp
      with False Suc.prems(2) show False by simp
    qed
    moreover from Suc.hyps(2) have "d = n - Suc k" by simp
    ultimately have "foldl_js applyOp_js (Val (Blob (replicate (2 ^ Suc k) c)), 2 ^ Suc k - 1)
        (map doublingDelete [Suc k..<n]) = Inl RangeError"
      using Suc.hyps(1) Suc.prems(2) by blast
    then show ?thesis
      unfolding upt using doubling_step [of k c] type False
      by (simp del: applyOp.simps power_Suc)
  qed
qed

lemma exactIntI: "- 9007199254740992 \<le> x \<Longrightarrow> x \<le> 9007199254740992 \<Longrightarrow> exactInt x"
  by (simp add: exactInt_def abs_le_iff)

lemma doubling_exact:
  "k \<le> n \<Longrightarrow> n \<le> 52 \<Longrightarrow>
   exact_run (replicate (2 ^ k) c, 2 ^ k - 1) (map doublingDelete [k..<n])"
proof (induction "n - k" arbitrary: k)
  case 0
  then show ?case by simp
next
  case (Suc d)
  from Suc.prems Suc.hyps(2) have k: "k < n" and upt: "[k..<n] = k # [Suc k..<n]"
    by (simp_all add: upt_conv_Cons)
  have "(2::int) ^ Suc k \<le> 2 ^ 53"
    using k Suc.prems(2) by (intro power_increasing) simp_all
  then have big: "(2::int) ^ Suc k \<le> 9007199254740992"
    by simp
  have "(2::int) ^ k \<le> 2 ^ Suc k"
    by (intro power_increasing) simp_all
  with big have small: "(2::int) ^ k \<le> 9007199254740992"
    by linarith
  have p1: "(1::int) \<le> 2 ^ k" and p2: "(1::int) \<le> 2 ^ Suc k"
    by (simp_all only: one_le_power one_le_numeral)
  from Suc.hyps(2) k have "d = n - Suc k" "Suc k \<le> n" by simp_all
  with Suc.hyps(1) Suc.prems(2)
  have rest: "exact_run (replicate (2 ^ Suc k) c, 2 ^ Suc k - 1) (map doublingDelete [Suc k..<n])"
    by blast
  have vals: "position (doublingDelete k) = 1" "lengthOr0 (doublingDelete k) = - (2 ^ k)"
    by (simp_all add: doublingDelete_def lengthOr0_def)
  have here: "exactInt (position (doublingDelete k))" "exactInt (lengthOr0 (doublingDelete k))"
    "exactInt (2 ^ k - 1)" "exactInt (position (doublingDelete k) + (2 ^ k - 1))"
    "exactInt (position (doublingDelete k) + (2 ^ k - 1) + lengthOr0 (doublingDelete k))"
    "exactInt (2 ^ Suc k - 1)"
    unfolding vals using big small p1 p2 by (intro exactIntI; linarith)+
  show ?case
    unfolding upt using doubling_step [of k c] rest here
    by (simp del: applyOp.simps power_Suc)
qed

lemma doubling_sorted: "sort_key position (map doublingDelete ks) = map doublingDelete ks"
proof -
  have "map position (map doublingDelete ks) = replicate (length ks) 1"
    by (induction ks) (simp_all add: doublingDelete_def)
  then show ?thesis
    by (simp add: sort_key_id_if_sorted sorted_replicate del: map_map)
qed

lemma doubling_31:
  "applyOperations_js (Val (Blob ''a'')) (map doublingDelete [0..<31]) = Inl RangeError"
proof -
  have start: "(Val (Blob ''a''), 0::int) = (Val (Blob (replicate (2 ^ 0) CHR ''a'')), 2 ^ 0 - 1)"
    by simp
  have "maxStringLength < 2 ^ 31"
    by (simp add: maxStringLength_def)
  from doubling_raises [of 0 31 "CHR ''a''", OF _ this]
  show ?thesis
    unfolding applyOperations_js_def doubling_sorted start by simp
qed

text \<open>
  Claim C9, as stated, fails: on the content \<open>a\<close>, each of the 31 deletes at position 1
  with lengths \<open>-1, -2, -4, \<dots>, -2^30\<close> doubles the string (\<open>slice(0, p)\<close> and
  \<open>slice(p + length)\<close> are both the whole string), and the last one raises.
\<close>

theorem applyOperations_total_counterexample:
  "exact_run (''a'', 0) (sort_key position (map doublingDelete [0..<31])) \<and>
   applyOperations_js (Val (Blob ''a'')) (map doublingDelete [0..<31]) = Inl RangeError"
proof -
  have start: "(''a'', 0::int) = (replicate (2 ^ 0) CHR ''a'', 2 ^ 0 - 1)"
    by simp
  have "maxStringLength < 2 ^ 31"
    by (simp add: maxStringLength_def)
  from doubling_raises [of 0 31 "CHR ''a''", OF _ this] doubling_exact [of 0 31 "CHR ''a''"]
  show ?thesis
    unfolding applyOperations_js_def doubling_sorted start by simp
qed

theorem applyOperations_total_witness:
  "exact_run (''ab'', 0) (sort_key position [opInsert ''Y'' 1, \<lparr>op_type = Delete, op_length = None, op_text = None, position = - 7\<rparr>]) \<and>
   fits (''ab'', 0) (sort_key position [opInsert ''Y'' 1, \<lparr>op_type = Delete, op_length = None, op_text = None, position = - 7\<rparr>]) \<and>
   applyOperations_js (Val (Blob ''ab'')) [opInsert ''Y'' 1, \<lparr>op_type = Delete, op_length = None, op_text = None, position = - 7\<rparr>] =
     Inr (Val (Blob ''aYb''))"
proof -
  let ?ops = "[opInsert ''Y'' 1, \<lparr>op_type = Delete, op_length = None, op_text = None, position = - 7\<rparr>]"
  have e: "exact_run (''ab'', 0) (sort_key position ?ops)"
    by (simp add: exactInt_def textLength_def lengthOr0_def)
  have f: "fits (''ab'', 0) (sort_key position ?ops)"
    by (simp add: maxStringLength_def slice_def sliceFrom_def sliceIndex_def textConcat_def
        textLength_def lengthOr0_def)
  have r: "applyOperations ''ab'' ?ops = ''aYb''"
    by code_simp
  from applyOperations_total [OF e]
  have "applyOperations_js (Val (Blob ''ab'')) ?ops =
      (if fits (''ab'', 0) (sort_key position ?ops)
       then Inr (Val (Blob (applyOperations ''ab'' ?ops))) else Inl RangeError)" .
  also have "\<dots> = Inr (Val (Blob ''aYb''))"
    by (simp only: f r if_True)
  finally have res: "applyOperations_js (Val (Blob ''ab'')) ?ops = Inr (Val (Blob ''aYb''))" .
  show ?thesis
    by (intro conjI e f res)
qed

section \<open>Shape of the operations made from a diff\<close>

lemma ops_ab_b: "diffToOperations (diff ''ab'' ''b'') = [opDelete 0, opRetain 1]"
  by code_simp

lemma consumed_char_ops: "consumed (char_ops p ds) = int (length (source_chars ds))"
  by (induction ds arbitrary: p) (auto simp: consumed_def lengthOr0_def split: CharDiffType.splits)

lemma char_ops_shape:
  "\<forall>d \<in> set ds. length (cd_char d) = 1 \<Longrightarrow> op \<in> set (char_ops p ds) \<Longrightarrow>
   (op_type op \<noteq> Insert \<longrightarrow>
      op_length op = Some 1 \<and> position op < p + int (length (source_chars ds))) \<and>
   (op_type op = Insert \<longrightarrow> (\<exists>c. op_text op = Some [c]))"
proof (induction ds arbitrary: p)
  case Nil
  then show ?case by simp
next
  case (Cons d ds)
  obtain c where c: "cd_char d = [c]"
    using Cons.prems(1) by (cases "cd_char d") auto
  from Cons.prems(1) have singles: "\<forall>d \<in> set ds. length (cd_char d) = 1"
    by simp
  show ?case
  proof (cases "cd_type d")
    case CAdded
    then show ?thesis
      using Cons.prems(2) Cons.IH [OF singles, of p] c by auto
  next
    case CRemoved
    then show ?thesis
      using Cons.prems(2) Cons.IH [OF singles, of "p + 1"] c by auto
  next
    case CUnchanged
    then show ?thesis
      using Cons.prems(2) Cons.IH [OF singles, of "p + 1"] c by auto
  qed
qed

text \<open>
  Claim C10, as amended. For all strings \<open>a\<close> and \<open>b\<close> the operations
  \<open>diffToOperations(diff(a, b))\<close> are in nondecreasing order of position, every retain and
  delete has length 1 and a position in \<open>[0, |a|)\<close>, and every insert has a text of one
  character. When \<open>a \<noteq> b\<close> the lengths of the retains and deletes sum to \<open>|a|\<close>; when
  \<open>a = b\<close> the list is empty.
\<close>

theorem diff_operations_wellformed:
  "sorted (map position (diffToOperations (diff a b))) \<and>
   (\<forall>op \<in> set (diffToOperations (diff a b)).
      (op_type op \<noteq> Insert \<longrightarrow>
         op_length op = Some 1 \<and> 0 \<le> position op \<and> position op < int (length a)) \<and>
      (op_type op = Insert \<longrightarrow> (\<exists>c. op_text op = Some [c]))) \<and>
   (if a = b then diffToOperations (diff a b) = []
    else consumed (diffToOperations (diff a b)) = int (length a))"
proof (cases "a = b")
  case True
  then show ?thesis by (simp add: diff_def diffToOperations_def)
next
  case False
  let ?ds = "generateCharacterDiff a b"
  have ops: "diffToOperations (diff a b) = char_ops 0 ?ds"
    using False by (simp add: diff_def diffToOperations_char_ops)
  have script: "source_chars ?ds = a" "\<forall>d \<in> set ?ds. length (cd_char d) = 1"
    using generateCharacterDiff_script [of a b] by simp_all
  have "sorted (map position (char_ops 0 ?ds))"
    by (rule char_ops_sorted)
  moreover have "\<forall>op \<in> set (char_ops 0 ?ds).
      (op_type op \<noteq> Insert \<longrightarrow>
         op_length op = Some 1 \<and> 0 \<le> position op \<and> position op < int (length a)) \<and>
      (op_type op = Insert \<longrightarrow> (\<exists>c. op_text op = Some [c]))"
    using char_ops_shape [OF script(2), of _ 0] char_ops_lower [of _ 0 ?ds] script(1) by auto
  moreover have "consumed (char_ops 0 ?ds) = int (length a)"
    by (simp add: consumed_char_ops script(1))
  ultimately show ?thesis using False ops by simp
qed

text \<open>
  Claim C10, as stated, fails: for \<open>a = b = x\<close> the list of operations is empty and the
  lengths sum to 0, not to \<open>|a| = 1\<close>.
\<close>

theorem diff_operations_wellformed_counterexample:
  "consumed (diffToOperations (diff ''x'' ''x'')) \<noteq> int (length ''x'')"
  by (simp add: diff_def diffToOperations_def consumed_def)

theorem diff_operations_wellformed_witness:
  "''ab'' \<noteq> ''b'' \<and> opDelete 0 \<in> set (diffToOperations (diff ''ab'' ''b'')) \<and>
   op_type (opDelete 0) \<noteq> Insert \<and>
   op_length (opDelete 0) = Some 1 \<and> 0 \<le> position (opDelete 0) \<and>
   position (opDelete 0) < int (length ''ab'') \<and>
   sorted (map position (diffToOperations (diff ''ab'' ''b''))) \<and>
   consumed (diffToOperations (diff ''ab'' ''b'')) = int (length ''ab'')"
  using diff_operations_wellformed [of "''ab''" "''b''"]
  by (simp add: ops_ab_b)

section \<open>Transforming client operations over server operations\<close>

lemma ops_ab_aXb: "diffToOperations (diff ''ab'' ''aXb'') = [opRetain 0, opInsert ''X'' 1, opRetain 1]"
  by code_simp

lemma ops_ab_aYb: "diffToOperations (diff ''ab'' ''aYb'') = [opRetain 0, opInsert ''Y'' 1, opRetain 1]"
  by code_simp

lemma ops_hello_ello:
  "diffToOperations (diff ''hello'' ''ello'') =
     [opDelete 0, opRetain 1, opRetain 2, opRetain 3, opRetain 4]"
  by code_simp

lemma ops_hello_bang:
  "diffToOperations (diff ''hello'' ''hello!'') =
     [opRetain 0, opRetain 1, opRetain 2, opRetain 3, opRetain 4, opInsert ''!'' 5]"
  by code_simp

lemma diff_js_strings: "diff_js (Val (Blob a)) (Val (Blob b)) = Inr (diff a b)"
  by (simp add: diff_js_def diff_def)

lemma tryTransform_strings:
  "tryTransform (Val (Blob base)) (Val (Blob client)) (Val (Blob server)) diff_js =
     applyOperations_js (Val (Blob server))
       (transformOperations (diffToOperations (diff base client))
          (diffToOperations (diff base server)))"
  by (simp add: tryTransform_def diff_js_strings)

lemma transformLoop_acc:
  "transformLoop cs ss off acc = acc @ transformLoop cs ss off []"
proof (induction "length cs + length ss" arbitrary: cs ss off acc rule: less_induct)
  case less
  show ?case
  proof (cases cs)
    case Nil
    then show ?thesis by simp
  next
    case (Cons c cs')
    note cs = Cons
    show ?thesis
    proof (cases ss)
      case Nil
      have "length cs' + length ([]::Operation list) < length cs + length ss"
        using cs by simp
      from less [OF this, of off "acc @ [c\<lparr>position := position c + off\<rparr>]"]
        less [OF this, of off "[c\<lparr>position := position c + off\<rparr>]"]
      show ?thesis
        using cs Nil by simp
    next
      case (Cons s ss')
      have 1: "length cs' + length (s # ss') < length cs + length ss"
        and 2: "length (c # cs') + length ss' < length cs + length ss"
        and 3: "length cs' + length ss' < length cs + length ss"
        using cs Cons by simp_all
      have push: "transformLoop cs' ss'' off (acc @ [x]) = acc @ transformLoop cs' ss'' off [x]"
        if "ss'' = s # ss' \<or> ss'' = ss'" for x ss''
      proof -
        have "length cs' + length ss'' < length cs + length ss"
          using that 1 3 by auto
        from less [OF this, of off "acc @ [x]"] less [OF this, of off "[x]"]
        show ?thesis by simp
      qed
      consider (before) "position c < position s"
        | (after) "position c > position s"
        | (same) "position c = position s"
        by linarith
      then show ?thesis
      proof cases
        case before
        then show ?thesis
          unfolding cs Cons by (simp add: push)
      next
        case after
        then show ?thesis
          unfolding cs Cons
          using less [OF 2, of "if op_type s = Insert then off + textLength s
               else if op_type s = Delete then off - lengthOr0 s else off" acc]
          by simp
      next
        case same
        then show ?thesis
          unfolding cs Cons using less [OF 3, of off acc] by (simp add: push)
      qed
    qed
  qed
qed

text \<open>
  Claim C2. When the loop of \<open>transformOperations\<close> stands at a client insert and a server
  insert with the same position, it emits the client insert with its position increased
  by exactly the length of the server insert's text, and goes on behind both operations
  with the offset unchanged. In the scenario with base \<open>ab\<close>, server content \<open>aXb\<close> and the
  client inserting \<open>Y\<close> at 1, the client content is \<open>aYb\<close> and the merge computation yields
  \<open>aXYb\<close>.
\<close>

theorem insert_tie_break:
  "(op_type c = Insert \<and> op_type s = Insert \<and> position c = position s \<longrightarrow>
      transformLoop (c # cs) (s # ss) off acc =
        acc @ [c\<lparr>position := position c + textLength s\<rparr>] @ transformLoop cs ss off []) \<and>
   applyOperations_js (Val (Blob ''ab'')) [opInsert ''Y'' 1] = Inr (Val (Blob ''aYb'')) \<and>
   operationalTransform (Val (Blob ''ab'')) (Val (Blob ''aYb'')) (Val (Blob ''aXb'')) diff_js =
     \<lparr>success = True, mergedContent = Some (Val (Blob ''aXYb'')), error = None\<rparr>"
proof -
  have "applyOperations_js (Val (Blob ''ab'')) [opInsert ''Y'' 1] = Inr (Val (Blob ''aYb''))"
    by code_simp
  moreover have "applyOperations_js (Val (Blob ''aXb''))
      (transformOperations [opRetain 0, opInsert ''Y'' 1, opRetain 1]
         [opRetain 0, opInsert ''X'' 1, opRetain 1]) = Inr (Val (Blob ''aXYb''))"
    by code_simp
  moreover have "transformLoop cs ss off (acc @ [x]) = acc @ [x] @ transformLoop cs ss off []" for x
    using transformLoop_acc [of cs ss off "acc @ [x]"] by simp
  ultimately show ?thesis
    by (simp add: operationalTransform_def tryTransform_strings
        ops_ab_aXb ops_ab_aYb)
qed

theorem insert_tie_break_witness:
  "op_type (opInsert ''Y'' 1) = Insert \<and> op_type (opInsert ''X'' 1) = Insert \<and>
   position (opInsert ''Y'' 1) = position (opInsert ''X'' 1) \<and>
   transformOperations [opInsert ''Y'' 1] [opInsert ''X'' 1] = [opInsert ''Y'' 2]"
  using insert_tie_break [of "opInsert ''Y'' 1" "opInsert ''X'' 1" "[]" "[]" 0 "[]"]
  by (simp add: transformOperations_def textLength_def)

text \<open>
  Claim C7, as stated, fails: in the merge of base \<open>hello\<close>, server content \<open>ello\<close> and the
  client inserting \<open>!\<close> at 5, the rebased list holds no \<open>insert("!", 4)\<close>.
\<close>

theorem delete_insert_rebase_counterexample:
  "opInsert ''!'' 4 \<notin> set (transformOperations (diffToOperations (diff ''hello'' ''hello!''))
                              (diffToOperations (diff ''hello'' ''ello'')))"
  unfolding ops_hello_ello ops_hello_bang by code_simp

text \<open>
  Claim C7, as amended. With base \<open>hello\<close>, server content \<open>ello\<close> and the client inserting
  \<open>!\<close> at 5, the client content is \<open>hello!\<close>; the merge computation transforms the two
  lists made from the diffs, where the server's delete meets the client's retain at
  position 0 and is not added to the offset, so the rebased list is the five retains
  followed by \<open>insert("!", 5)\<close>; the merged content is \<open>ello!\<close>. Transforming the list
  \<open>[insert("!", 5)]\<close> itself over \<open>[delete(1, 0)]\<close> does give \<open>[insert("!", 4)]\<close>.
\<close>

theorem delete_insert_rebase:
  "applyOperations_js (Val (Blob ''hello'')) [opInsert ''!'' 5] = Inr (Val (Blob ''hello!'')) \<and>
   transformOperations (diffToOperations (diff ''hello'' ''hello!''))
       (diffToOperations (diff ''hello'' ''ello'')) =
     [opRetain 0, opRetain 1, opRetain 2, opRetain 3, opRetain 4, opInsert ''!'' 5] \<and>
   operationalTransform (Val (Blob ''hello'')) (Val (Blob ''hello!'')) (Val (Blob ''ello'')) diff_js =
     \<lparr>success = True, mergedContent = Some (Val (Blob ''ello!'')), error = None\<rparr> \<and>
   transformOperations [opInsert ''!'' 5] [opDelete 0] = [opInsert ''!'' 4]"
proof -
  have "applyOperations_js (Val (Blob ''hello'')) [opInsert ''!'' 5] = Inr (Val (Blob ''hello!''))"
    by code_simp
  moreover have rebased: "transformOperations
       [opRetain 0, opRetain 1, opRetain 2, opRetain 3, opRetain 4, opInsert ''!'' 5]
       [opDelete 0, opRetain 1, opRetain 2, opRetain 3, opRetain 4] =
     [opRetain 0, opRetain 1, opRetain 2, opRetain 3, opRetain 4, opInsert ''!'' 5]"
    by code_simp
  moreover have "applyOperations_js (Val (Blob ''ello''))
       [opRetain 0, opRetain 1, opRetain 2, opRetain 3, opRetain 4, opInsert ''!'' 5] = Inr (Val (Blob ''ello!''))"
    by code_simp
  moreover have "transformOperations [opInsert ''!'' 5] [opDelete 0] = [opInsert ''!'' 4]"
    by code_simp
  ultimately show ?thesis
    by (simp add: operationalTransform_def tryTransform_strings
        ops_hello_ello ops_hello_bang)
qed

section \<open>The sync handler\<close>

lemmas example_defs = example_confused_def example_b_def example_h1_def example_ab_def
  example_h0_def example_room_def example_server_def example_digest_def

lemma getHistoryForNote_room:
  "getHistoryForNote sha1 st noteId now0 = (vh, st1) \<Longrightarrow>
   noteHistories st1 noteId = Some vh \<and> (noteHistories st noteId \<noteq> None \<longrightarrow> st1 = st)"
  by (auto simp: getHistoryForNote_def Let_def split: option.splits)

lemma getHistoryForNote_existing:
  "(case noteHistories st noteId of None \<Rightarrow> False | Some vh \<Rightarrow> True) \<Longrightarrow>
   getHistoryForNote sha1 st noteId now = (the (noteHistories st noteId), st)"
  by (simp add: getHistoryForNote_def split: option.splits)

text \<open>
  When \<open>getContent\<close> of the note's history returns \<open>null\<close> for the \<open>base_hash\<close> of a sync
  message, the handler sends the sender the error \<open>Base hash not found. Please reload.\<close>
  and returns. Nothing else is sent, and the state is the one in which the history was
  looked up: the state before the message when the note had a history, that state with a
  new history holding the initial commit otherwise.
\<close>

lemma null_base_content:
  assumes "getHistoryForNote sha1 st noteId now0 = (vh, st1)"
    and "getContent vh (Some base) = Null"
  shows "websocket_message sha1 st sender noteId (sync base ops) now0 now =
           Returned st1 [(sender, ErrorMessage ''Base hash not found. Please reload.'')] \<and>
         noteHistories st1 noteId = Some vh \<and> (noteHistories st noteId \<noteq> None \<longrightarrow> st1 = st)"
  using assms getHistoryForNote_room [OF assms(1)]
  by (simp add: websocket_message_def)

lemma null_base_content_example:
  "getContent (the (noteHistories example_room ''n'')) (Some ''deadbeef'') = Null \<and>
   websocket_message example_digest example_room 1 ''n'' (sync ''deadbeef'' [opInsert ''x'' 0]) ''t1'' ''t2'' =
     Returned example_room [(1, ErrorMessage ''Base hash not found. Please reload.'')]"
proof -
  have room: "getHistoryForNote example_digest example_room ''n'' ''t1'' =
     (the (noteHistories example_room ''n''), example_room)"
    by (simp add: example_room_def example_server_def getHistoryForNote_def Let_def)
  have unknown: "getContent (the (noteHistories example_room ''n'')) (Some ''deadbeef'') = Null"
    unfolding example_defs by code_simp
  from null_base_content [OF room unknown, of 1 "[opInsert ''x'' 0]" "''t2''"] unknown
  show ?thesis by simp
qed

lemmas example_length_defs = example_l2_def example_length_x_def example_l1_def
  example_length_typed_def example_l0_def example_length_text_def example_length_room_def
  example_length_server_def example_digest_def

text \<open>
  Claim C4 (a sync request whose base hash the store of the room cannot resolve is
  answered with the error \<open>Base hash not found. Please reload.\<close>, and nothing else
  happens) does not hold of the code for a base whose tree key holds a string. In the
  note \<open>length\<close>, after the JSON text of the tree of \<open>x\<close> and then \<open>x\<close> have been committed,
  the blob \<open>x\<close> is in the store and \<open>HEAD\<close> is the commit of \<open>x\<close>, but the tree key of that
  commit holds the text typed first, a string. Its property \<open>length\<close> is a number, no key
  of the store, and \<open>getContent\<close> returns \<open>undefined\<close>, the result of \<open>Map.get\<close>. The
  handler tests for \<open>null\<close> only: a sync request on \<open>HEAD\<close> goes on into the fast-forward
  path, where \<open>applyOperations\<close> raises on \<open>undefined\<close>. The exception is not caught, and no
  error is sent.
\<close>

theorem unknown_base_hash_uncaught:
  "db (the (noteHistories example_length_x ''length'')) (example_digest ''x'') = Some (Blob ''x'') \<and>
   getHeadHash (the (noteHistories example_length_x ''length'')) = Some example_l2 \<and>
   (case db (the (noteHistories example_length_x ''length'')) example_l2 of
      Some (CommitObj c) \<Rightarrow>
        db (the (noteHistories example_length_x ''length'')) (tree c) = Some (Blob example_length_text)
    | _ \<Rightarrow> False) \<and>
   getContent (the (noteHistories example_length_x ''length'')) (Some example_l2) = Undefined \<and>
   (case websocket_message example_digest example_length_x 2 ''length''
           (sync example_l2 [opInsert ''a'' 0]) ''t0'' ''t3'' of
      Threw e st sends \<Rightarrow> e = TypeError \<and> sends = []
    | _ \<Rightarrow> False)"
proof -
  let ?vh = "the (noteHistories example_length_x ''length'')"
  have "db ?vh (example_digest ''x'') = Some (Blob ''x'')"
    unfolding example_length_defs by code_simp
  moreover have "getHeadHash ?vh = Some example_l2"
    unfolding example_length_defs by code_simp
  moreover have "case db ?vh example_l2 of
      Some (CommitObj c) \<Rightarrow> db ?vh (tree c) = Some (Blob example_length_text)
    | _ \<Rightarrow> False"
    unfolding example_length_defs by code_simp
  moreover have "getContent ?vh (Some example_l2) = Undefined"
    unfolding example_length_defs by code_simp
  moreover have "case websocket_message example_digest example_length_x 2 ''length''
           (sync example_l2 [opInsert ''a'' 0]) ''t0'' ''t3'' of
      Threw e st sends \<Rightarrow> e = TypeError \<and> sends = []
    | _ \<Rightarrow> False"
    unfolding example_length_defs by code_simp
  ultimately show ?thesis
    by (intro conjI)
qed

lemmas example_stale_defs = example_stale_def example_h2_def example_defs

text \<open>
  On the merge path (the base resolves and differs from \<open>HEAD\<close>, and the client
  operations have been applied to the base), when a step inside the \<open>try\<close> block of
  \<open>operationalTransform\<close> raises (a diff, the conversion to operations, the transform or
  the apply of the rebased operations), the handler sends the sender a \<open>conflict\<close>
  carrying the error and returns: no commit (the note's history and \<open>HEAD\<close> are unchanged)
  and no update to anyone.
\<close>

lemma conflict_inside_try:
  assumes "getHistoryForNote sha1 st noteId now0 = (vh, st1)"
    and "getContent vh (Some base) \<noteq> Null"
    and "Some base \<noteq> getHeadHash vh"
    and "applyOperations_js (getContent vh (Some base)) ops = Inr client_content"
    and "tryTransform (getContent vh (Some base)) client_content (getCurrentContent vh) diff_js = Inl e"
  shows "websocket_message sha1 st sender noteId (sync base ops) now0 now =
           Returned st1 [(sender, Conflict (Some e))] \<and>
         noteHistories st1 noteId = Some vh \<and> (noteHistories st noteId \<noteq> None \<longrightarrow> st1 = st)"
  using assms getHistoryForNote_room [OF assms(1)]
  by (simp add: websocket_message_def operationalTransform_def)

lemma conflict_inside_try_example:
  "getContent (the (noteHistories example_confused ''n'')) (Some example_h0) = Val (Blob []) \<and>
   Some example_h0 \<noteq> getHeadHash (the (noteHistories example_confused ''n'')) \<and>
   getCurrentContent (the (noteHistories example_confused ''n'')) =
     Val (TreeObj [(''n'', example_digest [])]) \<and>
   websocket_message example_digest example_confused 2 ''n'' (sync example_h0 [opInsert ''a'' 0]) ''t0'' ''t2'' =
     Returned example_confused [(2, Conflict (Some TypeError))]"
proof -
  let ?vh = "the (noteHistories example_confused ''n'')"
  have some: "case noteHistories example_confused ''n'' of None \<Rightarrow> False | Some vh \<Rightarrow> True"
    unfolding example_defs by code_simp
  then have room: "getHistoryForNote example_digest example_confused ''n'' ''t0'' = (?vh, example_confused)"
    by (rule getHistoryForNote_existing)
  have base: "getContent ?vh (Some example_h0) = Val (Blob [])"
    unfolding example_defs by code_simp
  have head: "Some example_h0 \<noteq> getHeadHash ?vh"
    unfolding example_defs by code_simp
  have client: "applyOperations_js (Val (Blob [])) [opInsert ''a'' 0] = Inr (Val (Blob ''a''))"
    by code_simp
  have server: "getCurrentContent ?vh = Val (TreeObj [(''n'', example_digest [])])"
    unfolding example_defs by code_simp
  have raise: "tryTransform (Val (Blob [])) (Val (Blob ''a'')) (getCurrentContent ?vh) diff_js = Inl TypeError"
    unfolding server by (simp add: tryTransform_def diff_js_def)
  from conflict_inside_try [of example_digest example_confused "''n''" "''t0''" ?vh example_confused
      example_h0 "[opInsert ''a'' 0]" "Val (Blob ''a'')" TypeError 2 "''t2''"]
    room base head client server raise
  show ?thesis by simp
qed

lemmas example_a_defs = example_a_b_def example_ha_def example_a_def example_defs

text \<open>
  Claim C5 (when a step of the merge computation raises, the server replies \<open>conflict\<close>
  and stops without commit and without broadcast) does not hold of the code for the first
  step of the merge path, the apply of the client operations to the base content: the
  handler calls it before \<open>operationalTransform\<close>, outside the \<open>try\<close> block. When it
  raises, the exception is not caught, and the handler ends without sending a \<open>conflict\<close>
  or anything else. Two requests on a base that is not \<open>HEAD\<close> show it: on the base \<open>a\<close>,
  31 deletes that double the string until it is too long; and on a base that resolves to
  a stored object that is not a string, one insert.
\<close>

theorem conflict_on_failure_uncaught:
  "getContent (the (noteHistories example_a_b ''n'')) (Some example_ha) = Val (Blob ''a'') \<and>
   getCurrentContent (the (noteHistories example_a_b ''n'')) = Val (Blob ''ab'') \<and>
   websocket_message example_digest example_a_b 2 ''n''
       (sync example_ha (map doublingDelete [0..<31])) ''t0'' ''t3'' =
     Threw RangeError example_a_b [] \<and>
   getContent (the (noteHistories example_stale ''n'')) (Some example_h2) \<noteq> Null \<and>
   Some example_h2 \<noteq> getHeadHash (the (noteHistories example_stale ''n'')) \<and>
   applyOperations_js (getContent (the (noteHistories example_stale ''n'')) (Some example_h2))
     [opInsert ''a'' 0] = Inl TypeError \<and>
   (case websocket_message example_digest example_stale 2 ''n''
           (sync example_h2 [opInsert ''a'' 0]) ''t0'' ''t3'' of
      Threw e st sends \<Rightarrow> e = TypeError \<and> sends = []
    | _ \<Rightarrow> False)"
proof -
  let ?vh = "the (noteHistories example_a_b ''n'')"
  have "case noteHistories example_a_b ''n'' of None \<Rightarrow> False | Some vh \<Rightarrow> True"
    unfolding example_a_defs by code_simp
  then have room: "getHistoryForNote example_digest example_a_b ''n'' ''t0'' = (?vh, example_a_b)"
    by (rule getHistoryForNote_existing)
  have base: "getContent ?vh (Some example_ha) = Val (Blob ''a'')"
    unfolding example_a_defs by code_simp
  have server: "getCurrentContent ?vh = Val (Blob ''ab'')"
    unfolding example_a_defs by code_simp
  have head: "Some example_ha \<noteq> getHeadHash ?vh"
    unfolding example_a_defs by code_simp
  have long: "websocket_message example_digest example_a_b 2 ''n''
       (sync example_ha (map doublingDelete [0..<31])) ''t0'' ''t3'' =
     Threw RangeError example_a_b []"
    using head by (simp add: websocket_message_def room base doubling_31)
  have stale: "getContent (the (noteHistories example_stale ''n'')) (Some example_h2) \<noteq> Null \<and>
     Some example_h2 \<noteq> getHeadHash (the (noteHistories example_stale ''n'')) \<and>
     applyOperations_js (getContent (the (noteHistories example_stale ''n'')) (Some example_h2))
       [opInsert ''a'' 0] = Inl TypeError \<and>
     (case websocket_message example_digest example_stale 2 ''n''
             (sync example_h2 [opInsert ''a'' 0]) ''t0'' ''t3'' of
        Threw e st sends \<Rightarrow> e = TypeError \<and> sends = []
      | _ \<Rightarrow> False)"
    unfolding example_stale_defs by code_simp
  from base server long stale show ?thesis
    by (intro conjI) simp_all
qed

text \<open>
  Claim C6, as stated, fails: with base \<open>ab\<close> and both sides deleting the first character,
  the rebased list is not empty.
\<close>

theorem duplicate_delete_counterexample:
  "transformOperations (diffToOperations (diff ''ab'' ''b'')) (diffToOperations (diff ''ab'' ''b'')) \<noteq> []"
  unfolding ops_ab_b by code_simp

text \<open>
  Claim C6, as amended. After the first \<open>delete(1, 0)\<close> has been committed (\<open>HEAD\<close> holds
  \<open>b\<close>), the same delete against the old base \<open>ab\<close> takes the merge path. The client
  content is \<open>b\<close>; both lists made from the diffs are \<open>[delete(1, 0), retain(1, 1)]\<close>; the
  transform drops the client delete and keeps the retain, so the rebased list is
  \<open>[retain(1, 1)]\<close>, which changes nothing: the merged content is \<open>b\<close>, the server content.
  The handler commits it, sends the ack to the sender, and broadcasts no update, the
  operations from \<open>b\<close> to \<open>b\<close> being none.
\<close>

theorem duplicate_delete:
  assumes "getHistoryForNote sha1 st noteId now0 = (vh, st1)"
    and "getContent vh (Some base) = Val (Blob ''ab'')"
    and "getCurrentContent vh = Val (Blob ''b'')"
    and "Some base \<noteq> getHeadHash vh"
  shows "applyOperations_js (Val (Blob ''ab'')) [opDelete 0] = Inr (Val (Blob ''b'')) \<and>
         transformOperations (diffToOperations (diff ''ab'' ''b'')) (diffToOperations (diff ''ab'' ''b'')) =
           [opRetain 1] \<and>
         operationalTransform (Val (Blob ''ab'')) (Val (Blob ''b'')) (Val (Blob ''b'')) diff_js =
           \<lparr>success = True, mergedContent = Some (Val (Blob ''b'')), error = None\<rparr> \<and>
         diffToOperations (diff ''b'' ''b'') = [] \<and>
         websocket_message sha1 st sender noteId (sync base [opDelete 0]) now0 now =
           Returned
             (st1\<lparr>noteHistories := (noteHistories st1)
                (noteId \<mapsto> snd (commit sha1 vh (Blob ''b'') ''Merged update from client'' now now))\<rparr>)
             [(sender, Ack (fst (commit sha1 vh (Blob ''b'') ''Merged update from client'' now now)))]"
proof -
  have client: "applyOperations_js (Val (Blob ''ab'')) [opDelete 0] = Inr (Val (Blob ''b''))"
    by code_simp
  have rebased: "transformOperations [opDelete 0, opRetain 1] [opDelete 0, opRetain 1] = [opRetain 1]"
    by code_simp
  have merged: "applyOperations_js (Val (Blob ''b'')) [opRetain 1] = Inr (Val (Blob ''b''))"
    by code_simp
  have ot: "operationalTransform (Val (Blob ''ab'')) (Val (Blob ''b'')) (Val (Blob ''b'')) diff_js =
           \<lparr>success = True, mergedContent = Some (Val (Blob ''b'')), error = None\<rparr>"
    by (simp add: operationalTransform_def tryTransform_strings ops_ab_b rebased merged)
  have same: "diffToOperations (diff ''b'' ''b'') = []"
    by (simp add: diff_def diffToOperations_def)
  have "websocket_message sha1 st sender noteId (sync base [opDelete 0]) now0 now =
           Returned
             (st1\<lparr>noteHistories := (noteHistories st1)
                (noteId \<mapsto> snd (commit sha1 vh (Blob ''b'') ''Merged update from client'' now now))\<rparr>)
             [(sender, Ack (fst (commit sha1 vh (Blob ''b'') ''Merged update from client'' now now)))]"
    using assms
    by (simp add: websocket_message_def client ot diff_js_strings same
        split_def Let_def)
  then show ?thesis
    using client rebased ot same by (simp add: ops_ab_b)
qed

theorem duplicate_delete_witness:
  "getHistoryForNote example_digest example_b ''n'' ''t0'' =
     (the (noteHistories example_b ''n''), example_b) \<and>
   getContent (the (noteHistories example_b ''n'')) (Some example_h1) = Val (Blob ''ab'') \<and>
   getCurrentContent (the (noteHistories example_b ''n'')) = Val (Blob ''b'') \<and>
   Some example_h1 \<noteq> getHeadHash (the (noteHistories example_b ''n'')) \<and>
   (case websocket_message example_digest example_b 2 ''n'' (sync example_h1 [opDelete 0]) ''t0'' ''t3'' of
      Returned st sends \<Rightarrow>
        map fst sends = [2] \<and> (\<exists>h. map snd sends = [Ack h]) \<and>
        getCurrentContent (the (noteHistories st ''n'')) = Val (Blob ''b'')
    | _ \<Rightarrow> False)"
proof -
  let ?vh = "the (noteHistories example_b ''n'')"
  have "case noteHistories example_b ''n'' of None \<Rightarrow> False | Some vh \<Rightarrow> True"
    unfolding example_defs by code_simp
  then have room: "getHistoryForNote example_digest example_b ''n'' ''t0'' = (?vh, example_b)"
    by (rule getHistoryForNote_existing)
  have base: "getContent ?vh (Some example_h1) = Val (Blob ''ab'')"
    unfolding example_defs by code_simp
  have server: "getCurrentContent ?vh = Val (Blob ''b'')"
    unfolding example_defs by code_simp
  have head: "Some example_h1 \<noteq> getHeadHash ?vh"
    unfolding example_defs by code_simp
  have after: "getCurrentContent
      (snd (commit example_digest ?vh (Blob ''b'') ''Merged update from client'' ''t3'' ''t3'')) =
      Val (Blob ''b'')"
    unfolding example_defs by code_simp
  from duplicate_delete [OF room base server head, of 2 "''t3''"] room base server head after
  show ?thesis by simp
qed

section \<open>The version store\<close>

lemma commit_head:
  "HEAD (snd (commit sha1 vh content msg now1 now2)) = Some (fst (commit sha1 vh content msg now1 now2)) \<and>
   db (snd (commit sha1 vh content msg now1 now2)) (fst (commit sha1 vh content msg now1 now2)) =
     Some (CommitObj (commitDataOf sha1 vh content msg now1 now2)) \<and>
   filename (snd (commit sha1 vh content msg now1 now2)) = filename vh"
  by (simp add: commit_def commitDataOf_def Let_def)

lemma commit_db:
  assumes "readable_commit sha1 vh content msg now1 now2"
  shows "db (snd (commit sha1 vh content msg now1 now2)) =
           (db vh)(hashObject sha1 content \<mapsto> content,
                   hashObject sha1 (TreeObj [(filename vh, hashObject sha1 content)]) \<mapsto>
                     TreeObj [(filename vh, hashObject sha1 content)],
                   hashObject sha1 (CommitObj (commitDataOf sha1 vh content msg now1 now2)) \<mapsto>
                     CommitObj (commitDataOf sha1 vh content msg now1 now2))"
  using assms
  by (auto simp: readable_commit_def commit_def commitDataOf_def Let_def fun_eq_iff)

lemma fresh_commit_grows:
  assumes "fresh_commit sha1 vh content msg now1 now2"
  shows "db vh \<subseteq>\<^sub>m db (snd (commit sha1 vh content msg now1 now2))"
  using assms
  by (auto simp: fresh_commit_def commit_def commitDataOf_def Let_def map_le_def dom_def)

text \<open>
  The round trip where no key is shared. After \<open>h = commit(c, m)\<close>, \<open>getHeadHash()\<close> is \<open>h\<close>
  (lemma \<open>commit_head\<close>); when the blob, tree and commit keys of the commit differ, the
  blob and commit keys are not empty, and the blob and tree keys are new or already hold
  the very object put there, \<open>getContent(h)\<close> is \<open>c\<close>. \<open>getContent\<close> returns \<open>null\<close> for no
  hash and for a hash that is not in the store.
\<close>

lemma commit_getContent:
  assumes readable: "readable_commit sha1 vh (Blob c) m now1 now2"
  shows "getContent (snd (commit sha1 vh (Blob c) m now1 now2))
           (Some (fst (commit sha1 vh (Blob c) m now1 now2))) = Val (Blob c)"
proof -
  have h: "fst (commit sha1 vh (Blob c) m now1 now2) =
      hashObject sha1 (CommitObj (commitDataOf sha1 vh (Blob c) m now1 now2))"
    by (simp add: commit_def commitDataOf_def Let_def)
  have t: "tree (commitDataOf sha1 vh (Blob c) m now1 now2) =
      hashObject sha1 (TreeObj [(filename vh, hashObject sha1 (Blob c))])"
    by (simp add: commitDataOf_def)
  from readable show ?thesis
    unfolding getContent_def commit_db [OF readable] h
    by (simp add: readable_commit_def Let_def commit_head falsy_def propFalsy_def mapGet_def t)
qed

lemma getContent_absent:
  "getContent vh None = Null \<and> (db vh h = None \<longrightarrow> getContent vh (Some h) = Null)"
  by (simp add: getContent_def)

lemma clean_commit_readable:
  "clean_commit sha1 vh content msg now1 now2 \<Longrightarrow> readable_commit sha1 vh content msg now1 now2"
  by (simp add: clean_commit_def readable_commit_def Let_def)

lemma clean_commit_db:
  assumes "clean_commit sha1 vh content msg now1 now2"
  shows "db (snd (commit sha1 vh content msg now1 now2)) =
           (db vh)(hashObject sha1 content \<mapsto> content,
                   hashObject sha1 (TreeObj [(filename vh, hashObject sha1 content)]) \<mapsto>
                     TreeObj [(filename vh, hashObject sha1 content)],
                   hashObject sha1 (CommitObj (commitDataOf sha1 vh content msg now1 now2)) \<mapsto>
                     CommitObj (commitDataOf sha1 vh content msg now1 now2))"
  by (rule commit_db [OF clean_commit_readable [OF assms]])

lemma clean_commit_grows:
  assumes "clean_commit sha1 vh content msg now1 now2"
  shows "db vh \<subseteq>\<^sub>m db (snd (commit sha1 vh content msg now1 now2))"
  using assms unfolding clean_commit_db [OF assms]
  by (auto simp: clean_commit_def Let_def map_le_def)

lemma chained_mono: "chained d h \<Longrightarrow> d \<subseteq>\<^sub>m d' \<Longrightarrow> chained d' h"
proof (induction rule: chained.induct)
  case (last h c)
  then have "d' h = Some (CommitObj c)"
    by (auto simp: map_le_def dom_def)
  with last show ?case
    by (auto intro: chained.last)
next
  case (link h c p)
  then have "d' h = Some (CommitObj c)"
    by (auto simp: map_le_def dom_def)
  with link show ?case
    by (auto intro: chained.link)
qed

lemma fresh_commit_chained:
  assumes fresh: "fresh_commit sha1 vh content msg now1 now2"
    and inv: "head_chained vh"
  shows "head_chained (snd (commit sha1 vh content msg now1 now2))"
proof -
  let ?vh' = "snd (commit sha1 vh content msg now1 now2)"
  let ?c = "commitDataOf sha1 vh content msg now1 now2"
  let ?h = "fst (commit sha1 vh content msg now1 now2)"
  have le: "db vh \<subseteq>\<^sub>m db ?vh'"
    by (rule fresh_commit_grows [OF fresh])
  have stored: "db ?vh' ?h = Some (CommitObj ?c)" and head: "HEAD ?vh' = Some ?h"
    using commit_head [of sha1 vh content msg now1 now2] by simp_all
  have "chained (db ?vh') ?h"
  proof (cases "HEAD vh")
    case None
    then have "parent ?c = None" by (simp add: commitDataOf_def)
    with stored show ?thesis by (blast intro: chained.last)
  next
    case (Some p)
    then have par: "parent ?c = Some p" by (simp add: commitDataOf_def)
    from inv Some have "chained (db vh) p" by (simp add: head_chained_def)
    then have "chained (db ?vh') p" using le by (rule chained_mono)
    with stored par show ?thesis by (blast intro: chained.link)
  qed
  then show ?thesis by (simp add: head_chained_def head)
qed

lemma fresh_commits_append:
  "fresh_commits sha1 vh (xs @ ys) =
     (fresh_commits sha1 vh xs \<and> fresh_commits sha1 (commits sha1 vh xs) ys)"
  by (induction xs arbitrary: vh) auto

lemma fresh_commits_invariant:
  "fresh_commits sha1 vh reqs \<Longrightarrow> head_chained vh \<Longrightarrow>
   db vh \<subseteq>\<^sub>m db (commits sha1 vh reqs) \<and> head_chained (commits sha1 vh reqs)"
proof (induction reqs arbitrary: vh)
  case Nil
  then show ?case by simp
next
  case (Cons r reqs)
  obtain content msg now1 now2 where r: "r = (content, msg, now1, now2)"
    by (cases r) auto
  let ?vh' = "snd (commit sha1 vh (Blob content) msg now1 now2)"
  from Cons.prems r have fresh: "fresh_commit sha1 vh (Blob content) msg now1 now2"
    and rest: "fresh_commits sha1 ?vh' reqs"
    by simp_all
  have "head_chained ?vh'"
    by (rule fresh_commit_chained [OF fresh Cons.prems(2)])
  from Cons.IH [OF rest this] fresh_commit_grows [OF fresh]
  show ?case
    unfolding r by (auto intro: map_le_trans)
qed

lemma resolves_mono: "d \<subseteq>\<^sub>m d' \<Longrightarrow> resolves d fname c \<Longrightarrow> resolves d' fname c"
proof -
  assume le: "d \<subseteq>\<^sub>m d'" and r: "resolves d fname c"
  from r obtain t b where t: "d (tree c) = Some (TreeObj t)" "map_of t fname = Some b" "d b \<noteq> None"
    by (auto simp: resolves_def split: option.splits GitObject.splits)
  from le t have "d' (tree c) = Some (TreeObj t)" "d' b \<noteq> None"
    by (auto simp: map_le_def dom_def)
  with t(2) show "resolves d' fname c"
    by (auto simp: resolves_def)
qed

lemma rooted_mono: "rooted d fname h \<Longrightarrow> d \<subseteq>\<^sub>m d' \<Longrightarrow> rooted d' fname h"
proof (induction rule: rooted.induct)
  case (root h c)
  then have "d' h = Some (CommitObj c)"
    by (auto simp: map_le_def dom_def)
  with root show ?case
    by (auto intro: rooted.root resolves_mono)
next
  case (step h c p)
  then have "d' h = Some (CommitObj c)"
    by (auto simp: map_le_def dom_def)
  with step show ?case
    by (auto intro: rooted.step resolves_mono)
qed

lemma clean_commit_rooted:
  assumes clean: "clean_commit sha1 vh content msg now1 now2"
    and inv: "head_rooted vh"
  shows "head_rooted (snd (commit sha1 vh content msg now1 now2))"
proof -
  let ?vh' = "snd (commit sha1 vh content msg now1 now2)"
  let ?c = "commitDataOf sha1 vh content msg now1 now2"
  let ?h = "fst (commit sha1 vh content msg now1 now2)"
  have le: "db vh \<subseteq>\<^sub>m db ?vh'"
    by (rule clean_commit_grows [OF clean])
  have stored: "db ?vh' ?h = Some (CommitObj ?c)" and head: "HEAD ?vh' = Some ?h"
    and fname: "filename ?vh' = filename vh"
    using commit_head [of sha1 vh content msg now1 now2] by simp_all
  have res: "resolves (db ?vh') (filename vh) ?c"
    using clean unfolding clean_commit_db [OF clean]
    by (simp add: resolves_def clean_commit_def Let_def commitDataOf_def)
  have "rooted (db ?vh') (filename vh) ?h"
  proof (cases "HEAD vh")
    case None
    then have "parent ?c = None" by (simp add: commitDataOf_def)
    with stored res show ?thesis by (blast intro: rooted.root)
  next
    case (Some p)
    then have par: "parent ?c = Some p" by (simp add: commitDataOf_def)
    from inv Some have "rooted (db vh) (filename vh) p" by (simp add: head_rooted_def)
    then have "rooted (db ?vh') (filename vh) p" using le by (rule rooted_mono)
    with stored par res show ?thesis by (blast intro: rooted.step)
  qed
  then show ?thesis by (simp add: head_rooted_def head fname)
qed

lemma commits_append: "commits sha1 vh (xs @ ys) = commits sha1 (commits sha1 vh xs) ys"
  by (induction xs arbitrary: vh) auto

lemma clean_commits_append:
  "clean_commits sha1 vh (xs @ ys) =
     (clean_commits sha1 vh xs \<and> clean_commits sha1 (commits sha1 vh xs) ys)"
  by (induction xs arbitrary: vh) auto

lemma clean_commits_invariant:
  "clean_commits sha1 vh reqs \<Longrightarrow> head_rooted vh \<Longrightarrow>
   db vh \<subseteq>\<^sub>m db (commits sha1 vh reqs) \<and> head_rooted (commits sha1 vh reqs)"
proof (induction reqs arbitrary: vh)
  case Nil
  then show ?case by simp
next
  case (Cons r reqs)
  obtain content msg now1 now2 where r: "r = (content, msg, now1, now2)"
    by (cases r) auto
  let ?vh' = "snd (commit sha1 vh (Blob content) msg now1 now2)"
  from Cons.prems r have clean: "clean_commit sha1 vh (Blob content) msg now1 now2"
    and rest: "clean_commits sha1 ?vh' reqs"
    by simp_all
  have "head_rooted ?vh'"
    by (rule clean_commit_rooted [OF clean Cons.prems(2)])
  from Cons.IH [OF rest this] clean_commit_grows [OF clean]
  show ?case
    unfolding r by (auto intro: map_le_trans)
qed

lemma commits_head_present:
  "(\<forall>h. HEAD vh = Some h \<longrightarrow> db vh h \<noteq> None) \<Longrightarrow>
   (\<forall>h. HEAD (commits sha1 vh reqs) = Some h \<longrightarrow> db (commits sha1 vh reqs) h \<noteq> None)"
proof (induction reqs arbitrary: vh)
  case Nil
  then show ?case by simp
next
  case (Cons r reqs)
  obtain content msg now1 now2 where r: "r = (content, msg, now1, now2)"
    by (cases r) auto
  show ?case
    unfolding r commits.simps
    by (rule Cons.IH) (simp add: commit_head)
qed

lemma commits_filename: "filename (commits sha1 vh reqs) = filename vh"
  by (induction reqs arbitrary: vh) (auto simp: commit_head)


text \<open>
  The invariants of the store, each under the condition it needs. After any sequence of
  commits on a new store, \<open>HEAD\<close> is null or a key of the store. When every commit key of
  the sequence is new to the store at its commit, every key keeps its value from the
  moment it is in the store (the store after a prefix of the sequence is contained in
  the store after the whole sequence), and the chain from \<open>HEAD\<close> through the parents
  ends at a commit without parent. When moreover no commit of the sequence meets a key
  collision, every commit on the chain has a tree in the store and that tree a blob key
  in the store.
\<close>

lemma commits_invariants:
  "(\<forall>h. HEAD (commits sha1 (newVersionHistory fname) reqs) = Some h \<longrightarrow>
        db (commits sha1 (newVersionHistory fname) reqs) h \<noteq> None) \<and>
   (fresh_commits sha1 (newVersionHistory fname) (before @ later) \<longrightarrow>
      db (commits sha1 (newVersionHistory fname) before) \<subseteq>\<^sub>m
        db (commits sha1 (newVersionHistory fname) (before @ later)) \<and>
      (\<forall>h. HEAD (commits sha1 (newVersionHistory fname) (before @ later)) = Some h \<longrightarrow>
         chained (db (commits sha1 (newVersionHistory fname) (before @ later))) h)) \<and>
   (clean_commits sha1 (newVersionHistory fname) reqs \<longrightarrow>
      (\<forall>h. HEAD (commits sha1 (newVersionHistory fname) reqs) = Some h \<longrightarrow>
         rooted (db (commits sha1 (newVersionHistory fname) reqs)) fname h))"
proof -
  let ?new = "newVersionHistory fname"
  have new: "head_rooted ?new" "head_chained ?new"
    by (simp_all add: head_rooted_def head_chained_def newVersionHistory_def)
  have present: "\<forall>h. HEAD (commits sha1 ?new reqs) = Some h \<longrightarrow> db (commits sha1 ?new reqs) h \<noteq> None"
    by (rule commits_head_present) (simp add: newVersionHistory_def)
  have grows: "db (commits sha1 ?new before) \<subseteq>\<^sub>m db (commits sha1 ?new (before @ later)) \<and>
        (\<forall>h. HEAD (commits sha1 ?new (before @ later)) = Some h \<longrightarrow>
           chained (db (commits sha1 ?new (before @ later))) h)"
    if fresh: "fresh_commits sha1 ?new (before @ later)"
  proof -
    from fresh have c1: "fresh_commits sha1 ?new before"
      and c2: "fresh_commits sha1 (commits sha1 ?new before) later"
      by (simp_all add: fresh_commits_append)
    from fresh_commits_invariant [OF c1 new(2)] have mid: "head_chained (commits sha1 ?new before)"
      by simp
    from fresh_commits_invariant [OF c2 mid] show ?thesis
      by (auto simp: commits_append head_chained_def split: option.splits)
  qed
  have resolved: "\<forall>h. HEAD (commits sha1 ?new reqs) = Some h \<longrightarrow>
           rooted (db (commits sha1 ?new reqs)) fname h"
    if clean: "clean_commits sha1 ?new reqs"
    using clean_commits_invariant [OF clean new(1)]
    by (auto simp: head_rooted_def commits_filename newVersionHistory_def split: option.splits)
  from present grows resolved show ?thesis by blast
qed

lemma commits_invariants_example:
  "fresh_commits example_digest (newVersionHistory ''note.txt'')
     ([(''x'', ''first'', ''t1'', ''t1'')] @ [(''y'', ''second'', ''t2'', ''t2'')]) \<and>
   clean_commits example_digest (newVersionHistory ''note.txt'')
     [(''x'', ''first'', ''t1'', ''t1''), (''y'', ''second'', ''t2'', ''t2'')] \<and>
   rooted (db (commits example_digest (newVersionHistory ''note.txt'')
     [(''x'', ''first'', ''t1'', ''t1''), (''y'', ''second'', ''t2'', ''t2'')])) ''note.txt''
     (the (HEAD (commits example_digest (newVersionHistory ''note.txt'')
     [(''x'', ''first'', ''t1'', ''t1''), (''y'', ''second'', ''t2'', ''t2'')])))"
proof -
  let ?reqs = "[(''x'', ''first'', ''t1'', ''t1''), (''y'', ''second'', ''t2'', ''t2'')]"
  have fresh: "fresh_commits example_digest (newVersionHistory ''note.txt'')
     ([(''x'', ''first'', ''t1'', ''t1'')] @ [(''y'', ''second'', ''t2'', ''t2'')])"
    unfolding example_digest_def by code_simp
  have clean: "clean_commits example_digest (newVersionHistory ''note.txt'') ?reqs"
    unfolding example_digest_def by code_simp
  have head: "HEAD (commits example_digest (newVersionHistory ''note.txt'') ?reqs) \<noteq> None"
    by (simp add: commit_head)
  from commits_invariants [of example_digest "''note.txt''" ?reqs] clean head fresh
  show ?thesis by auto
qed

text \<open>
  Whatever the digest, a blob whose text is the JSON text of a tree gets the key of that
  tree: the store keeps one of the two under the key and hands it out for both.
\<close>

lemma tree_text_collision:
  "hashObject sha1 (Blob (stringifyTree t)) = hashObject sha1 (TreeObj t)"
  by (simp add: hashObject_def)

text \<open>
  Claim C3 (after \<open>h = commit(c, m)\<close>, \<open>getContent(h)\<close> is \<open>c\<close>) does not hold of the code
  when \<open>c\<close> is the JSON text of a tree of the store. In a store that holds \<open>x\<close>, the commit
  of the JSON text of the tree of \<open>x\<close> finds its blob key taken by that tree and stores
  no blob, and \<open>getContent\<close> of the new commit, declared to return a string or \<open>null\<close>,
  returns the tree object.
\<close>

theorem commit_roundtrip_confused:
  "getHeadHash (snd (commit example_digest example_store (Blob example_text) ''second'' ''t2'' ''t2'')) =
     Some (fst (commit example_digest example_store (Blob example_text) ''second'' ''t2'' ''t2'')) \<and>
   getContent (snd (commit example_digest example_store (Blob example_text) ''second'' ''t2'' ''t2''))
     (Some (fst (commit example_digest example_store (Blob example_text) ''second'' ''t2'' ''t2''))) =
     Val (TreeObj [(''note.txt'', example_digest ''x'')])"
proof -
  have "getHeadHash (snd (commit example_digest example_store (Blob example_text) ''second'' ''t2'' ''t2'')) =
     Some (fst (commit example_digest example_store (Blob example_text) ''second'' ''t2'' ''t2''))"
    unfolding example_store_def example_text_def example_digest_def by code_simp
  moreover have "getContent (snd (commit example_digest example_store (Blob example_text) ''second'' ''t2'' ''t2''))
     (Some (fst (commit example_digest example_store (Blob example_text) ''second'' ''t2'' ''t2''))) =
     Val (TreeObj [(''note.txt'', example_digest ''x'')])"
    unfolding example_store_def example_text_def example_digest_def by code_simp
  ultimately show ?thesis
    by (intro conjI)
qed

text \<open>
  Claim C8 (after any sequence of commits, the tree hash of every commit reachable from
  \<open>HEAD\<close> and the blob hash of that tree resolve within the store) does not hold of the
  code. When the JSON text of the tree of \<open>x\<close> is committed before \<open>x\<close>, the commit of \<open>x\<close>
  finds its tree key taken by that text and stores no tree: the tree hash of the \<open>HEAD\<close>
  commit leads to a string, which has no entry for the file name, so that no blob hash
  is found and the content at \<open>HEAD\<close> reads as \<open>null\<close>.
\<close>

theorem store_invariants_confused:
  "(case HEAD example_store2 of
      Some h \<Rightarrow>
        (case db example_store2 h of
           Some (CommitObj c) \<Rightarrow>
             parent c \<noteq> None \<and>
             db example_store2 (tree c) = Some (Blob example_text) \<and>
             getProp (Blob example_text) (filename example_store2) = NoProp
         | _ \<Rightarrow> False)
    | None \<Rightarrow> False) \<and>
   db example_store2 (example_digest ''x'') = Some (Blob ''x'') \<and>
   getCurrentContent example_store2 = Null"
proof -
  have "case HEAD example_store2 of
      Some h \<Rightarrow>
        (case db example_store2 h of
           Some (CommitObj c) \<Rightarrow>
             parent c \<noteq> None \<and>
             db example_store2 (tree c) = Some (Blob example_text) \<and>
             getProp (Blob example_text) (filename example_store2) = NoProp
         | _ \<Rightarrow> False)
    | None \<Rightarrow> False"
    unfolding example_store2_def example_text_def example_digest_def by code_simp
  moreover have "db example_store2 (example_digest ''x'') = Some (Blob ''x'')"
    unfolding example_store2_def example_text_def example_digest_def by code_simp
  moreover have "getCurrentContent example_store2 = Null"
    unfolding example_store2_def example_text_def example_digest_def by code_simp
  ultimately show ?thesis
    by (intro conjI)
qed

end
